theory Spec2Isabelle
  imports Complex_Main "HOL-Library.AList" "HOL-Library.FSet" "HOL-Library.Finite_Map"
    "HOL-Library.Multiset"
begin

section \<open>Topology manager of the network monitor\<close>

text \<open>
  A shallow embedding of \<^verbatim>\<open>modules/topology_manager.py\<close>. Methods of the class
  \<^verbatim>\<open>TopologyManager\<close> become functions on a record of its attributes; a leading
  underscore of a Python name is dropped (\<^verbatim>\<open>_add_link\<close> is \<open>add_link\<close>).
  The graphs are \<^verbatim>\<open>networkx.Graph\<close> objects: the operations of that library that
  the class calls are modelled after the library (networkx 2.x/3.x), under names
  starting with \<open>nx_\<close>.
\<close>

subsection \<open>Enumerations, values, errors\<close>

datatype LinkType = PHYSICAL | LOGICAL | VLAN | LAG

datatype LayerType = L2 | L3 | L4

text \<open>
  The Python values that occur as attribute values: \<^verbatim>\<open>None\<close>, strings, floats
  (clock readings, taken as real numbers), members of the two enumerations, tuples,
  sets and dictionaries with string keys. A set and a nested dictionary are compared
  by content, as Python does.
\<close>

datatype pyval =
    VNone
  | VStr string
  | VFloat real
  | VLinkType LinkType
  | VLayerType LayerType
  | VTuple "pyval list"
  | VSet "pyval fset"
  | VDict "(string, pyval) fmap"

datatype error =
    AttributeError
  | TypeError
  | KeyError
  | ValueError
  | NetworkXNoPath
  | NodeNotFound
  | NetworkXError
  | ProbeFailure string

text \<open>
  A Python \<^verbatim>\<open>dict\<close> keeps its keys in insertion order: an association list with
  distinct keys. \<open>map_of\<close> reads a key, \<open>AList.update\<close> is \<^verbatim>\<open>d[k] = v\<close> (an
  existing key keeps its position, a new key goes to the end), \<open>AList.delete\<close> is
  \<^verbatim>\<open>del d[k]\<close>.
\<close>

type_synonym attrs = "(string \<times> pyval) list"

definition dict_update :: "('k \<times> 'v) list \<Rightarrow> ('k \<times> 'v) list \<Rightarrow> ('k \<times> 'v) list" where
  \<comment> \<open>\<^verbatim>\<open>d.update(e)\<close>\<close>
  "dict_update d e = fold (\<lambda>(k, v). AList.update k v) e d"

definition dict_eq :: "('k \<times> 'v) list \<Rightarrow> ('k \<times> 'v) list \<Rightarrow> bool" where
  \<comment> \<open>\<^verbatim>\<open>d == e\<close> on dictionaries: the same keys with the same values, in any order\<close>
  "dict_eq d e \<longleftrightarrow> list_all (\<lambda>k. map_of d k = map_of e k) (map fst d @ map fst e)"

subsection \<open>The graph object of the library\<close>

text \<open>
  \<^verbatim>\<open>networkx.Graph\<close> is an undirected graph without parallel edges. It holds a
  dictionary from each node to its attribute dictionary (\<^verbatim>\<open>_node\<close>) and a
  dictionary from each node to the dictionary of its neighbours (\<^verbatim>\<open>_adj\<close>), each
  neighbour with the attribute dictionary of the edge; both dictionaries have the same
  keys in the same order, so one association list holds both. An edge \<open>u\<close>-\<open>v\<close> is
  stored under \<open>u\<close> and under \<open>v\<close>. Nodes are device addresses, strings.
\<close>

type_synonym node = string

type_synonym nxgraph = "(node \<times> attrs \<times> (node \<times> attrs) list) list"

definition nx_nodes :: "nxgraph \<Rightarrow> node list" where
  \<comment> \<open>\<^verbatim>\<open>G.nodes()\<close>\<close>
  "nx_nodes G = map fst G"

definition nx_nodes_data :: "nxgraph \<Rightarrow> (node \<times> attrs) list" where
  \<comment> \<open>\<^verbatim>\<open>G.nodes(data=True)\<close>\<close>
  "nx_nodes_data G = map (\<lambda>(n, na, nbrs). (n, na)) G"

definition nx_adj :: "nxgraph \<Rightarrow> node \<Rightarrow> (node \<times> attrs) list" where
  \<comment> \<open>\<^verbatim>\<open>G._adj[u]\<close>, read only where \<open>u\<close> is a node\<close>
  "nx_adj G u = (case map_of G u of None \<Rightarrow> [] | Some (na, nbrs) \<Rightarrow> nbrs)"

definition nx_new_node :: "nxgraph \<Rightarrow> node \<Rightarrow> nxgraph" where
  \<comment> \<open>\<^verbatim>\<open>if u not in self._node: self._adj[u] = {}; self._node[u] = {}\<close>\<close>
  "nx_new_node G u = (if map_of G u = None then G @ [(u, [], [])] else G)"

definition nx_set_adj :: "nxgraph \<Rightarrow> node \<Rightarrow> node \<Rightarrow> attrs \<Rightarrow> nxgraph" where
  \<comment> \<open>\<^verbatim>\<open>self._adj[u][v] = datadict\<close>\<close>
  "nx_set_adj G u v dd =
     (case map_of G u of
        None \<Rightarrow> G
      | Some (na, nbrs) \<Rightarrow> AList.update u (na, AList.update v dd nbrs) G)"

definition nx_add_edge :: "nxgraph \<Rightarrow> node \<Rightarrow> node \<Rightarrow> attrs \<Rightarrow> nxgraph" where
  \<comment> \<open>\<^verbatim>\<open>G.add_edge(u, v, **attr)\<close>: an edge that exists keeps its dictionary, which
      is updated with the new attributes\<close>
  "nx_add_edge G u v attr =
     (let G1 = nx_new_node (nx_new_node G u) v;
          datadict = dict_update (case map_of (nx_adj G1 u) v of None \<Rightarrow> [] | Some d \<Rightarrow> d) attr
      in nx_set_adj (nx_set_adj G1 u v datadict) v u datadict)"

definition nx_add_edges_from :: "nxgraph \<Rightarrow> (node \<times> node \<times> attrs) list \<Rightarrow> nxgraph" where
  \<comment> \<open>\<^verbatim>\<open>G.add_edges_from(ebunch)\<close> on triples \<open>(u, v, datadict)\<close>\<close>
  "nx_add_edges_from G es = fold (\<lambda>(u, v, dd) H. nx_add_edge H u v dd) es G"

definition nx_add_nodes_from :: "nxgraph \<Rightarrow> (node \<times> attrs) list \<Rightarrow> nxgraph" where
  \<comment> \<open>\<^verbatim>\<open>G.add_nodes_from(nodes)\<close> on pairs \<open>(n, datadict)\<close>\<close>
  "nx_add_nodes_from G ns =
     fold (\<lambda>(n, dd) H.
        case map_of H n of
          None \<Rightarrow> H @ [(n, dict_update [] dd, [])]
        | Some (na, nbrs) \<Rightarrow> AList.update n (dict_update na dd, nbrs) H) ns G"

fun nx_edges_from :: "node list \<Rightarrow> nxgraph \<Rightarrow> (node \<times> node \<times> attrs) list" where
  "nx_edges_from seen [] = []"
| "nx_edges_from seen ((n, na, nbrs) # rest) =
     map (\<lambda>(nbr, dd). (n, nbr, dd)) (filter (\<lambda>(nbr, dd). nbr \<notin> set seen) nbrs)
       @ nx_edges_from (n # seen) rest"

definition nx_edges_data :: "nxgraph \<Rightarrow> (node \<times> node \<times> attrs) list" where
  \<comment> \<open>\<^verbatim>\<open>G.edges(data=True)\<close>: every edge once, from the endpoint that comes first
      among the nodes\<close>
  "nx_edges_data G = nx_edges_from [] G"

definition nx_edges :: "nxgraph \<Rightarrow> (node \<times> node) list" where
  \<comment> \<open>\<^verbatim>\<open>G.edges()\<close>\<close>
  "nx_edges G = map (\<lambda>(u, v, dd). (u, v)) (nx_edges_data G)"

definition nx_get_edge_data :: "nxgraph \<Rightarrow> node \<Rightarrow> node \<Rightarrow> attrs option" where
  \<comment> \<open>\<^verbatim>\<open>G.get_edge_data(u, v)\<close>: the attribute dictionary of the edge, \<^verbatim>\<open>None\<close>
      without that edge\<close>
  "nx_get_edge_data G u v =
     (case map_of G u of None \<Rightarrow> None | Some (na, nbrs) \<Rightarrow> map_of nbrs v)"

definition nx_del_adj :: "nxgraph \<Rightarrow> node \<Rightarrow> node \<Rightarrow> nxgraph" where
  \<comment> \<open>\<^verbatim>\<open>del self._adj[u][v]\<close>, where the entry exists\<close>
  "nx_del_adj G u v =
     (case map_of G u of
        None \<Rightarrow> G
      | Some (na, nbrs) \<Rightarrow> AList.update u (na, AList.delete v nbrs) G)"

definition nx_remove_edge :: "nxgraph \<Rightarrow> node \<Rightarrow> node \<Rightarrow> (error \<times> nxgraph) + nxgraph" where
  \<comment> \<open>\<^verbatim>\<open>G.remove_edge(u, v)\<close>: \<^verbatim>\<open>NetworkXError\<close> without that edge\<close>
  "nx_remove_edge G u v =
     (if nx_get_edge_data G u v = None then Inl (NetworkXError, G)
      else let G1 = nx_del_adj G u v
           in if u = v then Inr G1
              else if nx_get_edge_data G1 v u = None then Inl (NetworkXError, G1)
              else Inr (nx_del_adj G1 v u))"

definition nx_clear :: "nxgraph \<Rightarrow> nxgraph" where
  \<comment> \<open>\<^verbatim>\<open>G.clear()\<close>\<close>
  "nx_clear G = []"

text \<open>
  What holds of every graph object the library makes: no key twice in a dictionary,
  and an edge stored under both its ends with the same attribute dictionary.
\<close>

definition nx_wf :: "nxgraph \<Rightarrow> bool" where
  "nx_wf G \<longleftrightarrow>
     distinct (map fst G) \<and>
     (\<forall>n na nbrs. map_of G n = Some (na, nbrs) \<longrightarrow> distinct (map fst nbrs)) \<and>
     (\<forall>x y. nx_get_edge_data G x y = nx_get_edge_data G y x)"

subsection \<open>The data classes and the manager\<close>

record NetworkLink =
  source_device :: string
  target_device :: string
  source_interface :: string
  target_interface :: string
  link_type :: LinkType
  layer :: LayerType
  speed :: int
  status :: string
  vlan :: "int option"
  lag_id :: "string option"
  metrics :: "attrs option"

record TopologyNode =
  device_ip :: string
  device_name :: string
  device_type :: string
  location :: string
  interfaces :: "(string \<times> attrs) list"
  neighbors :: "(string \<times> NetworkLink) list"
  vlans :: "int list option"
  routes :: "attrs list option"

text \<open>
  A change record, the dictionary \<^verbatim>\<open>changes\<close> of \<^verbatim>\<open>_detect_topology_changes\<close>. Its
  lists are filled from Python sets, whose order of iteration is not fixed: they are
  kept as sets.
\<close>

record modified_link =
  edge :: "node \<times> node"
  previous :: "attrs option"
  current :: "attrs option"

record change_record =
  timestamp :: real
  added_nodes :: "node set"
  removed_nodes :: "node set"
  added_links :: "(node \<times> node) set"
  removed_links :: "(node \<times> node) set"
  modified_links :: "modified_link set"

datatype log_entry = LogError string error | LogInfo string

text \<open>
  The attributes of a \<^verbatim>\<open>TopologyManager\<close>, with two handles on the world outside:
  \<open>logged\<close>, the lines written to the module's logger, and \<open>time_calls\<close>, the number
  of calls of \<^verbatim>\<open>time.time()\<close> made so far. The clock is a function from that number
  to the reading the call returns.
\<close>

record manager =
  config :: attrs
  topology :: nxgraph
  layer2_topology :: nxgraph
  layer3_topology :: nxgraph
  nodes :: "(string \<times> TopologyNode) list"
  history :: "change_record list"
  last_update :: real
  update_interval :: real
  logged :: "log_entry list"
  time_calls :: nat

type_synonym clock = "nat \<Rightarrow> real"

definition time_time :: "clock \<Rightarrow> manager \<Rightarrow> real \<times> manager" where
  \<comment> \<open>\<^verbatim>\<open>time.time()\<close>\<close>
  "time_time clk st = (clk (time_calls st), st\<lparr>time_calls := Suc (time_calls st)\<rparr>)"

definition log_error :: "string \<Rightarrow> error \<Rightarrow> manager \<Rightarrow> manager" where
  \<comment> \<open>\<^verbatim>\<open>logger.error(f"...: {e}")\<close>\<close>
  "log_error msg e st = st\<lparr>logged := logged st @ [LogError msg e]\<rparr>"

definition log_info :: "string \<Rightarrow> manager \<Rightarrow> manager" where
  "log_info msg st = st\<lparr>logged := logged st @ [LogInfo msg]\<rparr>"

subsection \<open>Adding a link\<close>

definition link_data :: "LinkType \<Rightarrow> LayerType \<Rightarrow> string \<Rightarrow> string \<Rightarrow> real \<Rightarrow> attrs \<Rightarrow> attrs" where
  \<comment> \<open>the dictionary \<^verbatim>\<open>link_data\<close>, with \<^verbatim>\<open>**kwargs\<close> unpacked last; Python lets no key
      of \<^verbatim>\<open>kwargs\<close> repeat the name of a parameter of \<^verbatim>\<open>_add_link\<close>\<close>
  "link_data lt ly si ti now kwargs =
     dict_update
       [(''link_type'', VLinkType lt), (''layer'', VLayerType ly),
        (''source_interface'', VStr si), (''target_interface'', VStr ti),
        (''timestamp'', VFloat now)] kwargs"

definition add_link ::
  "clock \<Rightarrow> manager \<Rightarrow> node \<Rightarrow> node \<Rightarrow> LinkType \<Rightarrow> LayerType \<Rightarrow> string \<Rightarrow> string \<Rightarrow> attrs \<Rightarrow> manager" where
  "add_link clk st src tgt lt ly si ti kwargs =
     (let (now, st1) = time_time clk st;
          ld = link_data lt ly si ti now kwargs
      in if ly = L2 then st1\<lparr>layer2_topology := nx_add_edge (layer2_topology st1) src tgt ld\<rparr>
         else if ly = L3 then st1\<lparr>layer3_topology := nx_add_edge (layer3_topology st1) src tgt ld\<rparr>
         else st1)"

text \<open>
  The parameters of \<^verbatim>\<open>_add_link\<close> have the types of their annotations. The clock is
  read when \<^verbatim>\<open>link_data\<close> is made, before the layer is looked at.

  A raw link record is the arguments of one call of \<^verbatim>\<open>_add_link\<close>. The discovery
  methods make such calls one after the other.
\<close>

record raw_link =
  rl_source :: node
  rl_target :: node
  rl_link_type :: LinkType
  rl_layer :: LayerType
  rl_source_interface :: string
  rl_target_interface :: string
  rl_kwargs :: attrs

definition add_raw_link :: "clock \<Rightarrow> raw_link \<Rightarrow> manager \<Rightarrow> manager" where
  "add_raw_link clk r st =
     add_link clk st (rl_source r) (rl_target r) (rl_link_type r) (rl_layer r)
       (rl_source_interface r) (rl_target_interface r) (rl_kwargs r)"

definition add_links :: "clock \<Rightarrow> manager \<Rightarrow> raw_link list \<Rightarrow> manager" where
  "add_links clk st rs = fold (add_raw_link clk) rs st"

subsection \<open>Merging the layer graphs\<close>

fun hashable :: "pyval \<Rightarrow> bool" where
  "hashable (VDict m) = False"
| "hashable (VSet s) = False"
| "hashable (VTuple xs) = list_all hashable xs"
| "hashable v = True"

definition subscript :: "pyval \<Rightarrow> string \<Rightarrow> error + pyval" where
  \<comment> \<open>\<^verbatim>\<open>x[k]\<close> with a string \<open>k\<close>: only a dictionary can be read so\<close>
  "subscript x k =
     (case x of
        VDict m \<Rightarrow> (case fmlookup m k of None \<Rightarrow> Inl KeyError | Some v \<Rightarrow> Inr v)
      | _ \<Rightarrow> Inl TypeError)"

definition bnd :: "error + 'a \<Rightarrow> ('a \<Rightarrow> error + 'b) \<Rightarrow> error + 'b" where
  \<comment> \<open>sequencing: the first exception ends the computation\<close>
  "bnd x f = (case x of Inl e \<Rightarrow> Inl e | Inr a \<Rightarrow> f a)"

definition set_add :: "pyval fset \<Rightarrow> pyval \<Rightarrow> error + pyval fset" where
  \<comment> \<open>\<^verbatim>\<open>s.add(x)\<close>\<close>
  "set_add s x = (if hashable x then Inr (finsert x s) else Inl TypeError)"

text \<open>
  The dictionary \<^verbatim>\<open>merged\<close> of \<^verbatim>\<open>_merge_edge_data\<close>, as the tuple of its four values.
  \<^verbatim>\<open>metrics.update(x)\<close> is modelled for a dictionary \<open>x\<close>; another value raises
  \<^verbatim>\<open>TypeError\<close> here.
\<close>

type_synonym merged = "pyval fset \<times> pyval fset \<times> pyval fset \<times> (string, pyval) fmap"

definition merge_one :: "merged \<Rightarrow> pyval \<Rightarrow> error + merged" where
  \<comment> \<open>the body of the loop of \<^verbatim>\<open>_merge_edge_data\<close>\<close>
  "merge_one m e =
     (case m of (lts, lys, ifs, ms) \<Rightarrow>
        bnd (subscript e ''link_type'') (\<lambda>lt.
        bnd (set_add lts lt) (\<lambda>lts'.
        bnd (subscript e ''layer'') (\<lambda>ly.
        bnd (set_add lys ly) (\<lambda>lys'.
        bnd (subscript e ''source_interface'') (\<lambda>si.
        bnd (subscript e ''target_interface'') (\<lambda>ti.
        bnd (set_add ifs (VTuple [si, ti])) (\<lambda>ifs'.
          case e of
            VDict d \<Rightarrow>
              (case fmlookup d ''metrics'' of
                 None \<Rightarrow> Inr (lts', lys', ifs', ms)
               | Some (VDict mm) \<Rightarrow> Inr (lts', lys', ifs', ms ++\<^sub>f mm)
               | Some _ \<Rightarrow> Inl TypeError)
          | _ \<Rightarrow> Inl TypeError))))))))"

fun merge_values :: "merged \<Rightarrow> pyval list \<Rightarrow> error + merged" where
  "merge_values m [] = Inr m"
| "merge_values m (e # es) = bnd (merge_one m e) (\<lambda>m'. merge_values m' es)"

definition merge_edge_data :: "attrs \<Rightarrow> error + attrs" where
  "merge_edge_data edges =
     bnd (merge_values ({||}, {||}, {||}, fmempty) (map snd edges))
       (\<lambda>(lts, lys, ifs, ms). Inr
          [(''link_types'', VSet lts), (''layers'', VSet lys),
           (''interfaces'', VSet ifs), (''metrics'', VDict ms)])"

fun find_duplicates :: "nxgraph \<Rightarrow> (node \<times> node \<times> attrs) list \<Rightarrow> error + (node \<times> node) list" where
  \<comment> \<open>the first loop of \<^verbatim>\<open>_merge_duplicate_links\<close>: \<^verbatim>\<open>len(edges) > 1\<close> counts the keys
      of the edge's attribute dictionary\<close>
  "find_duplicates G [] = Inr []"
| "find_duplicates G ((s, t, dd) # es) =
     (case nx_get_edge_data G s t of
        None \<Rightarrow> Inl TypeError
      | Some edges \<Rightarrow>
          bnd (find_duplicates G es) (\<lambda>dups.
            Inr (if length edges > 1 then (s, t) # dups else dups)))"

text \<open>
  \<^verbatim>\<open>_merge_duplicate_links\<close> reads and writes \<^verbatim>\<open>self.topology\<close> only: it is a
  function on that graph. An exception leaves the graph as it is at that moment.
\<close>

fun merge_loop :: "nxgraph \<Rightarrow> (node \<times> node) list \<Rightarrow> (error \<times> nxgraph) + nxgraph" where
  \<comment> \<open>the second loop of \<^verbatim>\<open>_merge_duplicate_links\<close>\<close>
  "merge_loop G [] = Inr G"
| "merge_loop G ((s, t) # rest) =
     (case nx_get_edge_data G s t of
        None \<Rightarrow> Inl (AttributeError, G)
      | Some edges \<Rightarrow>
          (case merge_edge_data edges of
             Inl e \<Rightarrow> Inl (e, G)
           | Inr merged_data \<Rightarrow>
               (case nx_remove_edge G s t of
                  Inl (e, G1) \<Rightarrow> Inl (e, G1)
                | Inr G1 \<Rightarrow> merge_loop (nx_add_edge G1 s t merged_data) rest)))"

definition merge_duplicate_links :: "nxgraph \<Rightarrow> (error \<times> nxgraph) + nxgraph" where
  "merge_duplicate_links G =
     (case find_duplicates G (nx_edges_data G) of
        Inl e \<Rightarrow> Inl (e, G)
      | Inr dups \<Rightarrow> merge_loop G dups)"

definition merge_topologies :: "manager \<Rightarrow> manager" where
  \<comment> \<open>the whole body is inside \<^verbatim>\<open>try: ... except Exception\<close>, which logs\<close>
  "merge_topologies st =
     (let t1 = nx_add_nodes_from (topology st) (nx_nodes_data (layer2_topology st));
          t2 = nx_add_edges_from t1 (nx_edges_data (layer2_topology st));
          t3 = nx_add_nodes_from t2 (nx_nodes_data (layer3_topology st));
          t4 = nx_add_edges_from t3 (nx_edges_data (layer3_topology st))
      in case merge_duplicate_links t4 of
           Inl (e, G) \<Rightarrow> log_error ''Error merging topologies'' e (st\<lparr>topology := G\<rparr>)
         | Inr G \<Rightarrow> st\<lparr>topology := G\<rparr>)"

subsection \<open>Detecting changes\<close>

definition data_differ :: "attrs option \<Rightarrow> attrs option \<Rightarrow> bool" where
  \<comment> \<open>\<^verbatim>\<open>current_data != previous_data\<close>\<close>
  "data_differ c p =
     (case (c, p) of
        (None, None) \<Rightarrow> False
      | (Some d, Some e) \<Rightarrow> \<not> dict_eq d e
      | _ \<Rightarrow> True)"

definition any_changes :: "change_record \<Rightarrow> bool" where
  \<comment> \<open>\<^verbatim>\<open>any(changes.values())\<close>: the values are the timestamp, a float, true unless it is
      zero, and the five lists, true unless empty\<close>
  "any_changes c \<longleftrightarrow>
     timestamp c \<noteq> 0 \<or> added_nodes c \<noteq> {} \<or> removed_nodes c \<noteq> {} \<or>
     added_links c \<noteq> {} \<or> removed_links c \<noteq> {} \<or> modified_links c \<noteq> {}"

definition topology_changes :: "real \<Rightarrow> nxgraph \<Rightarrow> nxgraph \<Rightarrow> change_record" where
  \<comment> \<open>the dictionary \<^verbatim>\<open>changes\<close> as \<^verbatim>\<open>_detect_topology_changes\<close> fills it, from the
      current and the previous graph\<close>
  "topology_changes now cur prev =
     (let current_nodes = set (nx_nodes cur);
          previous_nodes = set (nx_nodes prev);
          current_edges = set (nx_edges cur);
          previous_edges = set (nx_edges prev);
          common_edges = current_edges \<inter> previous_edges
      in \<lparr>timestamp = now,
          added_nodes = current_nodes - previous_nodes,
          removed_nodes = previous_nodes - current_nodes,
          added_links = current_edges - previous_edges,
          removed_links = previous_edges - current_edges,
          modified_links =
            (\<lambda>(u, v). \<lparr>edge = (u, v), previous = nx_get_edge_data prev u v,
                        current = nx_get_edge_data cur u v\<rparr>) `
            Set.filter (\<lambda>(u, v). data_differ (nx_get_edge_data cur u v) (nx_get_edge_data prev u v))
              common_edges\<rparr>)"

definition detect_topology_changes :: "clock \<Rightarrow> nxgraph \<Rightarrow> manager \<Rightarrow> manager" where
  \<comment> \<open>nothing in the body raises on these types: the handler of its \<^verbatim>\<open>try\<close> is not
      entered\<close>
  "detect_topology_changes clk previous_topology st =
     (let (now, st1) = time_time clk st;
          changes = topology_changes now (topology st1) previous_topology
      in if any_changes changes
         then log_info ''Topology changes detected'' (st1\<lparr>history := history st1 @ [changes]\<rparr>)
         else st1)"

definition get_topology_changes :: "manager \<Rightarrow> real \<Rightarrow> real \<Rightarrow> change_record list" where
  "get_topology_changes st start_time end_time =
     filter (\<lambda>change. start_time \<le> timestamp change \<and> timestamp change \<le> end_time) (history st)"

subsection \<open>Discovery\<close>
















subsection \<open>Updating the topology\<close>

text \<open>
  \<^verbatim>\<open>update_topology\<close> calls four methods of the object. Its body is embedded once for
  any behaviour of those four, each of which returns a new state or raises an exception
  in some state; \<open>update_topology\<close> is that body with the four methods of the class.
  \<^verbatim>\<open>self.topology.copy()\<close> is the graph's value; \<^verbatim>\<open>clear()\<close> empties the object
  that \<^verbatim>\<open>self.topology\<close> names, the one earlier calls returned.
\<close>

type_synonym step = "manager \<Rightarrow> (error \<times> manager) + manager"






subsection \<open>Graph algorithms of the library\<close>

definition nx_names :: "nxgraph \<Rightarrow> node set" where
  \<comment> \<open>every name in the graph: the nodes and the keys of their neighbour dictionaries\<close>
  "nx_names G = fst ` set G \<union> (\<Union>(n, na, nbrs) \<in> set G. fst ` set nbrs)"

text \<open>
  \<^verbatim>\<open>networkx.shortest_path(G, source, target)\<close> without weights: a path with the
  fewest edges, \<^verbatim>\<open>NodeNotFound\<close> when an endpoint is not a node of \<open>G\<close>,
  \<^verbatim>\<open>NetworkXNoPath\<close> when no path joins them. The search here is breadth first from
  the source, over the neighbours in their stored order; which one of several shortest
  paths the library returns is not modelled.
\<close>

function bfs :: "nxgraph \<Rightarrow> node \<Rightarrow> (node \<times> node list) list \<Rightarrow> node list \<Rightarrow> node list option" where
  "bfs G t [] seen = None"
| "bfs G t ((u, p) # queue) seen =
     (if u = t then Some p
      else let new = filter (\<lambda>v. v \<notin> set seen) (remdups (map fst (nx_adj G u)))
           in bfs G t (queue @ map (\<lambda>v. (v, p @ [v])) new) (seen @ new))"
  by pat_completeness auto
termination
proof (relation "measures [\<lambda>(G, t, q, seen). card (nx_names G - set seen), \<lambda>(G, t, q, seen). length q]")
  show "wf (measures [\<lambda>(G, t, q, seen). card (nx_names G - set seen), \<lambda>(G, t, q, seen). length q])"
    by simp
next
  fix G :: nxgraph and t u :: node and p queue seen new
  assume new: "new = filter (\<lambda>v. v \<notin> set seen) (remdups (map fst (nx_adj G u)))"
  have fin: "finite (nx_names G)"
    by (auto simp: nx_names_def)
  have adj: "fst ` set (nx_adj G u) \<subseteq> nx_names G"
  proof (cases "map_of G u")
    case None
    then show ?thesis by (simp add: nx_adj_def)
  next
    case (Some e)
    obtain na nbrs where e: "e = (na, nbrs)" by (cases e)
    have "(u, na, nbrs) \<in> set G"
      using Some e by (simp add: map_of_SomeD)
    then have "fst ` set nbrs \<subseteq> nx_names G"
      unfolding nx_names_def by blast
    then show ?thesis using Some e by (simp add: nx_adj_def)
  qed
  have sub: "set new \<subseteq> nx_names G - set seen"
    using adj by (auto simp: new)
  show "((G, t, queue @ map (\<lambda>v. (v, p @ [v])) new, seen @ new), (G, t, (u, p) # queue, seen))
        \<in> measures [\<lambda>(G, t, q, seen). card (nx_names G - set seen), \<lambda>(G, t, q, seen). length q]"
  proof (cases "new = []")
    case True
    then show ?thesis by simp
  next
    case False
    then obtain v where v: "v \<in> set new" by (cases new) auto
    have "nx_names G - set (seen @ new) \<subset> nx_names G - set seen"
      using v sub by auto
    then have "card (nx_names G - set (seen @ new)) < card (nx_names G - set seen)"
      using fin by (intro psubset_card_mono) auto
    then show ?thesis by simp
  qed
qed

definition nx_shortest_path :: "nxgraph \<Rightarrow> node \<Rightarrow> node \<Rightarrow> error + node list" where
  "nx_shortest_path G s t =
     (if s \<notin> set (nx_nodes G) \<or> t \<notin> set (nx_nodes G) then Inl NodeNotFound
      else case bfs G t [(s, [s])] [s] of
             None \<Rightarrow> Inl NetworkXNoPath
           | Some p \<Rightarrow> Inr p)"

text \<open>
  \<^verbatim>\<open>networkx.all_simple_paths(G, source, target)\<close> without a cutoff (networkx 2.4 to
  3.1). A target that is not a node is read as a collection of nodes: for a string,
  its characters. The library sets the cutoff to the number of nodes less one and walks
  depth first; \<open>visited\<close> is the path walked so far and ends in \<open>u\<close>.
\<close>

function nx_simple_paths_from ::
  "nxgraph \<Rightarrow> node list \<Rightarrow> nat \<Rightarrow> node list \<Rightarrow> node \<Rightarrow> node list list" where
  "nx_simple_paths_from G targets cutoff visited u =
     (if length visited < cutoff then
        concat (map (\<lambda>child.
          if child \<in> set visited then []
          else (if child \<in> set targets then [visited @ [child]] else []) @
               (if list_ex (\<lambda>x. x \<notin> set (visited @ [child])) targets
                then nx_simple_paths_from G targets cutoff (visited @ [child]) child
                else []))
          (map fst (nx_adj G u)))
      else map (\<lambda>x. visited @ [x])
             (filter (\<lambda>x. x \<in> set targets \<and> x \<notin> set visited) (remdups (map fst (nx_adj G u)))))"
  by pat_completeness auto
termination
  by (relation "measure (\<lambda>(G, targets, cutoff, visited, u). cutoff - length visited)") auto

definition nx_all_simple_paths :: "nxgraph \<Rightarrow> node \<Rightarrow> node \<Rightarrow> error + node list list" where
  "nx_all_simple_paths G s t =
     (if s \<notin> set (nx_nodes G) then Inl NodeNotFound
      else let targets = (if t \<in> set (nx_nodes G) then [t] else remdups (map (\<lambda>c. [c]) t));
               cutoff = length G - 1
           in if s \<in> set targets then Inr []
              else if cutoff < 1 then Inr []
              else Inr (nx_simple_paths_from G targets cutoff [s] s))"

text \<open>
  \<^verbatim>\<open>networkx.bridges(G)\<close>: the edges of \<open>G\<close> whose removal increases the number of
  connected components, that is, whose ends are not joined by another path. The
  library finds them by a chain decomposition; they are computed here from that
  definition, with the nodes reachable from one end.
\<close>

function reach :: "nxgraph \<Rightarrow> node list \<Rightarrow> node list" where
  "reach G S =
     (let new = filter (\<lambda>v. v \<notin> set S) (remdups (concat (map (\<lambda>u. map fst (nx_adj G u)) S)))
      in if new = [] then S else reach G (S @ new))"
  by pat_completeness auto
termination
proof (relation "measure (\<lambda>(G, S). card (nx_names G - set S))")
  show "wf (measure (\<lambda>(G, S). card (nx_names G - set S)))"
    by simp
next
  fix G :: nxgraph and S new :: "node list"
  assume new: "new = filter (\<lambda>v. v \<notin> set S) (remdups (concat (map (\<lambda>u. map fst (nx_adj G u)) S)))"
    and ne: "new \<noteq> []"
  have fin: "finite (nx_names G)"
    by (auto simp: nx_names_def)
  have adj: "fst ` set (nx_adj G u) \<subseteq> nx_names G" for u
  proof (cases "map_of G u")
    case None
    then show ?thesis by (simp add: nx_adj_def)
  next
    case (Some e)
    obtain na nbrs where e: "e = (na, nbrs)" by (cases e)
    have "(u, na, nbrs) \<in> set G"
      using Some e by (simp add: map_of_SomeD)
    then have "fst ` set nbrs \<subseteq> nx_names G"
      unfolding nx_names_def by blast
    then show ?thesis using Some e by (simp add: nx_adj_def)
  qed
  have sub: "set new \<subseteq> nx_names G - set S"
    using adj by (auto simp: new)
  obtain v where v: "v \<in> set new"
    using ne by (cases new) auto
  have "nx_names G - set (S @ new) \<subset> nx_names G - set S"
    using v sub by auto
  then have "card (nx_names G - set (S @ new)) < card (nx_names G - set S)"
    using fin by (intro psubset_card_mono) auto
  then show "((G, S @ new), (G, S)) \<in> measure (\<lambda>(G, S). card (nx_names G - set S))"
    by simp
qed

definition nx_has_path :: "nxgraph \<Rightarrow> node \<Rightarrow> node \<Rightarrow> bool" where
  "nx_has_path G u v \<longleftrightarrow> v \<in> set (reach G [u])"

definition nx_without_edge :: "nxgraph \<Rightarrow> node \<Rightarrow> node \<Rightarrow> nxgraph" where
  \<comment> \<open>the graph with the edge \<open>u\<close>-\<open>v\<close> taken out, the nodes kept\<close>
  "nx_without_edge G u v = nx_del_adj (nx_del_adj G u v) v u"

definition nx_bridges :: "nxgraph \<Rightarrow> (node \<times> node) list" where
  "nx_bridges G = filter (\<lambda>(u, v). \<not> nx_has_path (nx_without_edge G u v) u v) (nx_edges G)"

subsection \<open>Queries\<close>

definition get_path :: "manager \<Rightarrow> node \<Rightarrow> node \<Rightarrow> (error \<times> manager) + (node list \<times> manager)" where
  \<comment> \<open>the handler is \<^verbatim>\<open>except nx.NetworkXNoPath\<close>: another exception leaves the method\<close>
  "get_path st source target =
     (case nx_shortest_path (topology st) source target of
        Inr p \<Rightarrow> Inr (p, st)
      | Inl NetworkXNoPath \<Rightarrow> Inr ([], log_error ''No path found'' NetworkXNoPath st)
      | Inl e \<Rightarrow> Inl (e, st))"

definition get_redundant_paths :: "manager \<Rightarrow> node \<Rightarrow> node \<Rightarrow> node list list \<times> manager" where
  \<comment> \<open>the handler is \<^verbatim>\<open>except Exception\<close>\<close>
  "get_redundant_paths st source target =
     (case nx_all_simple_paths (topology st) source target of
        Inr ps \<Rightarrow> (ps, st)
      | Inl e \<Rightarrow> ([], log_error ''Error finding redundant paths'' e st))"

definition get_critical_links :: "manager \<Rightarrow> (node \<times> node) list \<times> manager" where
  \<comment> \<open>\<^verbatim>\<open>nx.bridges\<close> raises for no undirected graph: the handler is not entered\<close>
  "get_critical_links st = (nx_bridges (topology st), st)"

text \<open>
  What \<^verbatim>\<open>export_topology\<close> returns: the node-link dictionary of the graph (its nodes
  and its edges, each with its attributes), the generator that \<^verbatim>\<open>generate_graphml\<close>
  makes, which has not read the graph yet, or \<^verbatim>\<open>None\<close>.
\<close>

datatype export =
    NodeLinkData "(node \<times> attrs) list" "(node \<times> node \<times> attrs) list"
  | GraphmlGenerator nxgraph
  | ExportNone

definition export_topology :: "manager \<Rightarrow> string \<Rightarrow> export \<times> manager" where
  "export_topology st format =
     (if format = ''json''
      then (NodeLinkData (nx_nodes_data (topology st)) (nx_edges_data (topology st)), st)
      else if format = ''graphml'' then (GraphmlGenerator (topology st), st)
      else (ExportNone, log_error ''Error exporting topology'' ValueError st))"

text \<open>
  Clearing the three graphs, adding raw link records and merging: what one cycle of
  \<^verbatim>\<open>update_topology\<close> does to the graphs when discovery makes these calls of
  \<^verbatim>\<open>_add_link\<close>.
\<close>

definition clear_graphs :: "manager \<Rightarrow> manager" where
  "clear_graphs st =
     st\<lparr>topology := nx_clear (topology st),
        layer2_topology := nx_clear (layer2_topology st),
        layer3_topology := nx_clear (layer3_topology st)\<rparr>"

definition build_unified :: "clock \<Rightarrow> manager \<Rightarrow> raw_link list \<Rightarrow> nxgraph" where
  "build_unified clk st rs = topology (merge_topologies (add_links clk (clear_graphs st) rs))"

subsection \<open>Notions of the claims\<close>

definition link_pair :: "raw_link \<Rightarrow> node set" where
  \<comment> \<open>the unordered node pair a record targets\<close>
  "link_pair r = {rl_source r, rl_target r}"

definition edge_attrs :: "nxgraph \<Rightarrow> node \<Rightarrow> node \<Rightarrow> (string \<rightharpoonup> pyval) option" where
  \<comment> \<open>the attributes of an edge, as a map\<close>
  "edge_attrs G u v = map_option map_of (nx_get_edge_data G u v)"

definition edge_set :: "nxgraph \<Rightarrow> node set set" where
  \<comment> \<open>the edges, as unordered pairs\<close>
  "edge_set G = (\<lambda>(u, v). {u, v}) ` set (nx_edges G)"

definition attr_identical :: "nxgraph \<Rightarrow> nxgraph \<Rightarrow> bool" where
  \<comment> \<open>the same node set, the same edge set, the same attributes on every edge\<close>
  "attr_identical G H \<longleftrightarrow>
     set (nx_nodes G) = set (nx_nodes H) \<and> edge_set G = edge_set H \<and>
     (\<forall>u v. edge_attrs G u v = edge_attrs H u v)"

definition attr_identical_but :: "string \<Rightarrow> nxgraph \<Rightarrow> nxgraph \<Rightarrow> bool" where
  \<comment> \<open>the same, but for the value of one attribute\<close>
  "attr_identical_but key G H \<longleftrightarrow>
     set (nx_nodes G) = set (nx_nodes H) \<and> edge_set G = edge_set H \<and>
     (\<forall>u v. map_option (\<lambda>m. m |` (- {key})) (edge_attrs G u v)
            = map_option (\<lambda>m. m |` (- {key})) (edge_attrs H u v))"

fun walk :: "nxgraph \<Rightarrow> node list \<Rightarrow> bool" where
  \<comment> \<open>each node of the list is a neighbour of the one before it\<close>
  "walk G [] = True"
| "walk G [x] = True"
| "walk G (x # y # p) = (y \<in> fst ` set (nx_adj G x) \<and> walk G (y # p))"

definition simple_path :: "nxgraph \<Rightarrow> node \<Rightarrow> node \<Rightarrow> node list \<Rightarrow> bool" where
  \<comment> \<open>a path from \<open>s\<close> to \<open>t\<close> that repeats no node\<close>
  "simple_path G s t p \<longleftrightarrow> p \<noteq> [] \<and> hd p = s \<and> last p = t \<and> distinct p \<and> walk G p"

text \<open>
  What the proofs use of the attribute dictionaries that \<^verbatim>\<open>_add_link\<close> makes: the
  keys are distinct and the first entry is the link type.
\<close>

definition starts_lt :: "attrs \<Rightarrow> bool" where
  "starts_lt d \<longleftrightarrow> (\<exists>lt rest. d = (''link_type'', VLinkType lt) # rest)"

definition good_attrs :: "attrs \<Rightarrow> bool" where
  "good_attrs d \<longleftrightarrow> distinct (map fst d) \<and> starts_lt d"

definition nx_good :: "nxgraph \<Rightarrow> bool" where
  "nx_good G \<longleftrightarrow> (\<forall>x y d. nx_get_edge_data G x y = Some d \<longrightarrow> good_attrs d)"

definition rl_data :: "raw_link \<Rightarrow> real \<Rightarrow> attrs" where
  \<comment> \<open>the dictionary \<^verbatim>\<open>link_data\<close> of a record added at a clock reading\<close>
  "rl_data r t =
     link_data (rl_link_type r) (rl_layer r) (rl_source_interface r) (rl_target_interface r) t
       (rl_kwargs r)"

definition adds_selected :: "clock \<Rightarrow> (manager \<Rightarrow> nxgraph) \<Rightarrow> (raw_link \<Rightarrow> bool) \<Rightarrow> bool" where
  \<comment> \<open>a graph of the manager to which \<^verbatim>\<open>_add_link\<close> adds the selected records as edges\<close>
  "adds_selected clk g sel \<longleftrightarrow>
     (\<forall>st r. g (add_raw_link clk r st) =
        (if sel r then nx_add_edge (g st) (rl_source r) (rl_target r) (rl_data r (clk (time_calls st)))
         else g st))"

definition add_node1 :: "node \<times> attrs \<Rightarrow> nxgraph \<Rightarrow> nxgraph" where
  \<comment> \<open>one step of \<open>nx_add_nodes_from\<close>\<close>
  "add_node1 = (\<lambda>(n, dd) H.
        case map_of H n of
          None \<Rightarrow> H @ [(n, dict_update [] dd, [])]
        | Some (na, nbrs) \<Rightarrow> AList.update n (dict_update na dd, nbrs) H)"

definition merged_graph :: "nxgraph \<Rightarrow> nxgraph \<Rightarrow> nxgraph \<Rightarrow> nxgraph" where
  \<comment> \<open>the unified graph as \<^verbatim>\<open>_merge_topologies\<close> fills it, before the duplicate pass\<close>
  "merged_graph T G2 G3 =
     nx_add_edges_from
       (nx_add_nodes_from
         (nx_add_edges_from (nx_add_nodes_from T (nx_nodes_data G2)) (nx_edges_data G2))
         (nx_nodes_data G3))
       (nx_edges_data G3)"

subsection \<open>Example inputs\<close>

definition manager0 :: manager where
  \<comment> \<open>a manager as \<^verbatim>\<open>__init__\<close> leaves it, with the default interval\<close>
  "manager0 =
     \<lparr>config = [], topology = [], layer2_topology = [], layer3_topology = [], nodes = [],
      history = [], last_update = 0, update_interval = 3600, logged = [], time_calls = 0\<rparr>"

definition clock_at :: "real \<Rightarrow> clock" where
  \<comment> \<open>a clock that stands still\<close>
  "clock_at t = (\<lambda>n. t)"

definition link_ab_eth0 :: raw_link where
  "link_ab_eth0 =
     \<lparr>rl_source = ''A'', rl_target = ''B'', rl_link_type = PHYSICAL, rl_layer = L2,
      rl_source_interface = ''eth0'', rl_target_interface = ''eth1'', rl_kwargs = []\<rparr>"

definition link_ab_eth2 :: raw_link where
  "link_ab_eth2 =
     \<lparr>rl_source = ''A'', rl_target = ''B'', rl_link_type = PHYSICAL, rl_layer = L2,
      rl_source_interface = ''eth2'', rl_target_interface = ''eth3'', rl_kwargs = []\<rparr>"

definition link_ab_l4 :: raw_link where
  "link_ab_l4 =
     \<lparr>rl_source = ''A'', rl_target = ''B'', rl_link_type = LOGICAL, rl_layer = L4,
      rl_source_interface = ''eth0'', rl_target_interface = ''eth1'', rl_kwargs = []\<rparr>"

definition link_bc_route :: raw_link where
  "link_bc_route =
     \<lparr>rl_source = ''B'', rl_target = ''C'', rl_link_type = LOGICAL, rl_layer = L3,
      rl_source_interface = ''eth2'', rl_target_interface = ''N/A'', rl_kwargs = []\<rparr>"

definition graph_ab :: nxgraph where
  \<comment> \<open>the two nodes \<open>A\<close> and \<open>B\<close> and the edge between them\<close>
  "graph_ab = nx_add_edge [] ''A'' ''B'' []"

definition manager_ab :: manager where
  \<comment> \<open>a manager that publishes \<open>graph_ab\<close> and knows no device\<close>
  "manager_ab = manager0\<lparr>topology := graph_ab\<rparr>"

definition device :: "nat \<Rightarrow> node" where
  \<comment> \<open>device names \<open>n\<close>, \<open>nn\<close>, \<open>nnn\<close>, ...\<close>
  "device i = replicate (Suc i) CHR ''n''"

definition full_mesh :: "nat \<Rightarrow> nxgraph" where
  \<comment> \<open>\<open>n\<close> devices, each linked to every other\<close>
  "full_mesh n =
     nx_add_edges_from []
       (map (\<lambda>(i, j). (device i, device j, []))
          (filter (\<lambda>(i, j). i < j) (List.product [0..<n] [0..<n])))"

section \<open>Lemmas on dictionaries and graphs\<close>

subsection \<open>Dictionaries\<close>

lemma map_of_dict_update: "map_of (dict_update d e) = map_of d ++ map_of (rev e)"
  unfolding dict_update_def
proof (induction e arbitrary: d)
  case Nil
  show ?case by simp
next
  case (Cons a e)
  obtain k v where a: "a = (k, v)" by (cases a)
  show ?case
    by (simp add: a Cons.IH update_conv' map_add_def fun_eq_iff split: option.splits)
qed

lemma distinct_dict_update: "distinct (map fst d) \<Longrightarrow> distinct (map fst (dict_update d e))"
  unfolding dict_update_def
  by (induction e arbitrary: d) (auto simp: distinct_update)

lemma map_of_rev_distinct: "distinct (map fst d) \<Longrightarrow> map_of (rev d) = map_of d"
  by (rule map_of_inject_set [THEN iffD2]) (simp_all add: rev_map [symmetric])

subsection \<open>Lookups in the graph\<close>

lemma set_nx_nodes: "set (nx_nodes G) = dom (map_of G)"
  by (simp add: nx_nodes_def dom_map_of_conv_image_fst)

lemma map_of_nx_new_node:
  "map_of (nx_new_node G u) x = (if map_of G u = None \<and> x = u then Some ([], []) else map_of G x)"
  by (auto simp: nx_new_node_def map_add_def split: option.splits)

lemma map_of_nx_set_adj:
  "map_of (nx_set_adj G u v dd) x =
     (case map_of G u of
        None \<Rightarrow> map_of G x
      | Some (na, nbrs) \<Rightarrow> if x = u then Some (na, AList.update v dd nbrs) else map_of G x)"
  by (auto simp: nx_set_adj_def update_conv' split: option.splits)

lemma get_edge_data_nx_new_node:
  "nx_get_edge_data (nx_new_node G u) x y = nx_get_edge_data G x y"
  by (auto simp: nx_get_edge_data_def map_of_nx_new_node split: option.splits)

lemma get_edge_data_nx_set_adj:
  "nx_get_edge_data (nx_set_adj G u v dd) x y =
     (if map_of G u \<noteq> None \<and> (x, y) = (u, v) then Some dd else nx_get_edge_data G x y)"
  by (cases "x = u"; cases "y = v")
    (auto simp: nx_get_edge_data_def map_of_nx_set_adj update_conv' split: option.splits)

lemma dom_nx_new_node: "dom (map_of (nx_new_node G u)) = insert u (dom (map_of G))"
  by (auto simp: map_of_nx_new_node dom_def split: if_splits)

lemma dom_nx_set_adj: "dom (map_of (nx_set_adj G u v dd)) = dom (map_of G)"
  by (auto simp: map_of_nx_set_adj dom_def split: option.splits if_splits)

lemma nx_add_edge_steps:
  "nx_add_edge G u v a =
     nx_set_adj (nx_set_adj (nx_new_node (nx_new_node G u) v) u v
        (dict_update (case nx_get_edge_data G u v of None \<Rightarrow> [] | Some d \<Rightarrow> d) a)) v u
        (dict_update (case nx_get_edge_data G u v of None \<Rightarrow> [] | Some d \<Rightarrow> d) a)"
proof -
  have "map_of (nx_adj (nx_new_node (nx_new_node G u) v) u) v = nx_get_edge_data G u v"
    by (auto simp: nx_adj_def nx_get_edge_data_def map_of_nx_new_node split: option.splits)
  then show ?thesis
    by (simp add: nx_add_edge_def Let_def)
qed

lemma get_edge_data_nx_add_edge:
  "nx_get_edge_data (nx_add_edge G u v a) x y =
     (if {x, y} = {u, v}
      then Some (dict_update (case nx_get_edge_data G u v of None \<Rightarrow> [] | Some d \<Rightarrow> d) a)
      else nx_get_edge_data G x y)"
proof -
  define G1 where "G1 = nx_new_node (nx_new_node G u) v"
  define dd where "dd = dict_update (case nx_get_edge_data G u v of None \<Rightarrow> [] | Some d \<Rightarrow> d) a"
  define G2 where "G2 = nx_set_adj G1 u v dd"
  have du: "map_of G1 u \<noteq> None" and dv: "map_of G1 v \<noteq> None"
    by (auto simp: G1_def map_of_nx_new_node)
  have dv2: "map_of G2 v \<noteq> None"
    using dv by (auto simp: G2_def map_of_nx_set_adj split: option.splits)
  have e1: "nx_get_edge_data G1 x y = nx_get_edge_data G x y" for x y
    by (simp add: G1_def get_edge_data_nx_new_node)
  have e2: "nx_get_edge_data G2 x y = (if (x, y) = (u, v) then Some dd else nx_get_edge_data G x y)"
    for x y
    using du unfolding G2_def get_edge_data_nx_set_adj e1 by simp
  have e3: "nx_get_edge_data (nx_set_adj G2 v u dd) x y =
      (if (x, y) = (v, u) then Some dd else nx_get_edge_data G2 x y)" for x y
    using dv2 unfolding get_edge_data_nx_set_adj by simp
  have eq: "nx_add_edge G u v a = nx_set_adj G2 v u dd"
    unfolding nx_add_edge_steps G2_def G1_def dd_def ..
  have "nx_get_edge_data (nx_set_adj G2 v u dd) x y =
     (if {x, y} = {u, v} then Some dd else nx_get_edge_data G x y)"
    unfolding e3 e2 doubleton_eq_iff
    by (cases "x = v"; cases "y = u"; cases "x = u"; cases "y = v"; simp)
  then show ?thesis
    unfolding eq dd_def .
qed

lemma dom_nx_add_edge: "dom (map_of (nx_add_edge G u v a)) = insert u (insert v (dom (map_of G)))"
  unfolding nx_add_edge_steps dom_nx_set_adj dom_nx_new_node by auto

lemma nx_wf_empty: "nx_wf []"
  by (simp add: nx_wf_def nx_get_edge_data_def)

lemma distinct_nx_new_node: "distinct (map fst G) \<Longrightarrow> distinct (map fst (nx_new_node G u))"
  by (auto simp: nx_new_node_def map_of_eq_None_iff)

lemma distinct_nx_set_adj: "distinct (map fst G) \<Longrightarrow> distinct (map fst (nx_set_adj G u v dd))"
  by (auto simp: nx_set_adj_def distinct_update split: option.splits)

lemma nx_wf_add_edge:
  assumes "nx_wf G"
  shows "nx_wf (nx_add_edge G u v a)"
proof -
  define dd where "dd = dict_update (case nx_get_edge_data G u v of None \<Rightarrow> [] | Some d \<Rightarrow> d) a"
  define G1 where "G1 = nx_new_node (nx_new_node G u) v"
  define G2 where "G2 = nx_set_adj G1 u v dd"
  have eq: "nx_add_edge G u v a = nx_set_adj G2 v u dd"
    unfolding nx_add_edge_steps G2_def G1_def dd_def ..
  have d: "distinct (map fst (nx_add_edge G u v a))"
    using assms unfolding nx_add_edge_steps nx_wf_def
    by (intro distinct_nx_set_adj distinct_nx_new_node) simp
  have n0: "distinct (map fst nbrs)" if "map_of G n = Some (na, nbrs)" for n na nbrs
    using assms that unfolding nx_wf_def by blast
  have n1: "distinct (map fst nbrs)" if "map_of G1 n = Some (na, nbrs)" for n na nbrs
    using that n0 unfolding G1_def map_of_nx_new_node
    by (auto split: if_splits)
  have n2: "distinct (map fst nbrs)" if "map_of G2 n = Some (na, nbrs)" for n na nbrs
    using that n1 unfolding G2_def map_of_nx_set_adj
    by (auto split: option.splits if_splits simp: distinct_update)
  have n3: "distinct (map fst nbrs)" if "map_of (nx_set_adj G2 v u dd) n = Some (na, nbrs)" for n na nbrs
    using that n2 unfolding map_of_nx_set_adj
    by (auto split: option.splits if_splits simp: distinct_update)
  have s: "nx_get_edge_data (nx_add_edge G u v a) x y = nx_get_edge_data (nx_add_edge G u v a) y x"
    for x y
  proof -
    have "nx_get_edge_data G x y = nx_get_edge_data G y x"
      using assms unfolding nx_wf_def by blast
    moreover have "{x, y} = {y, x}" by auto
    ultimately show ?thesis
      unfolding get_edge_data_nx_add_edge by (simp add: insert_commute)
  qed
  show ?thesis
    unfolding nx_wf_def using d n3 s unfolding eq by blast
qed

lemma set_nx_edges_from:
  "set (nx_edges_from seen G) =
     {(u, v, dd). \<exists>pre post na nbrs. G = pre @ (u, na, nbrs) # post \<and> (v, dd) \<in> set nbrs
        \<and> v \<notin> set seen \<and> v \<notin> fst ` set pre}"
proof (induction G arbitrary: seen)
  case Nil
  show ?case by simp
next
  case (Cons e G)
  obtain n na nbrs where e: "e = (n, na, nbrs)" by (cases e)
  have *: "\<And>u v dd. (u, v, dd) \<in> set (nx_edges_from seen (e # G)) \<longleftrightarrow>
     (\<exists>pre post na' nbrs'. e # G = pre @ (u, na', nbrs') # post \<and> (v, dd) \<in> set nbrs'
        \<and> v \<notin> set seen \<and> v \<notin> fst ` set pre)"
  proof -
    fix u v dd
    show "(u, v, dd) \<in> set (nx_edges_from seen (e # G)) \<longleftrightarrow>
     (\<exists>pre post na' nbrs'. e # G = pre @ (u, na', nbrs') # post \<and> (v, dd) \<in> set nbrs'
        \<and> v \<notin> set seen \<and> v \<notin> fst ` set pre)" (is "?L \<longleftrightarrow> ?R")
    proof
      assume ?L
      then consider (here) "u = n" "(v, dd) \<in> set nbrs" "v \<notin> set seen"
        | (later) "(u, v, dd) \<in> set (nx_edges_from (n # seen) G)"
        by (auto simp: e)
      then show ?R
      proof cases
        case here
        then have "e # G = [] @ (u, na, nbrs) # G \<and> (v, dd) \<in> set nbrs \<and> v \<notin> set seen \<and> v \<notin> fst ` set []"
          by (simp add: e)
        then show ?thesis by blast
      next
        case later
        then obtain pre post na' nbrs' where
          "G = pre @ (u, na', nbrs') # post" "(v, dd) \<in> set nbrs'" "v \<notin> set (n # seen)"
          "v \<notin> fst ` set pre"
          unfolding Cons.IH by blast
        then have "e # G = (e # pre) @ (u, na', nbrs') # post \<and> (v, dd) \<in> set nbrs'
           \<and> v \<notin> set seen \<and> v \<notin> fst ` set (e # pre)"
          by (auto simp: e)
        then show ?thesis by blast
      qed
    next
      assume ?R
      then obtain pre post na' nbrs' where
        R: "e # G = pre @ (u, na', nbrs') # post" "(v, dd) \<in> set nbrs'" "v \<notin> set seen"
        "v \<notin> fst ` set pre"
        by blast
      show ?L
      proof (cases pre)
        case Nil
        then show ?thesis using R by (auto simp: e)
      next
        case (Cons e' pre')
        then have "G = pre' @ (u, na', nbrs') # post" "v \<notin> set (n # seen)" "v \<notin> fst ` set pre'"
          using R by (auto simp: e)
        then have "(u, v, dd) \<in> set (nx_edges_from (n # seen) G)"
          unfolding Cons.IH using R(2) by blast
        then show ?thesis by (simp add: e)
      qed
    qed
  qed
  show ?case
  proof (rule set_eqI)
    fix p :: "node \<times> node \<times> attrs"
    obtain u v dd where p: "p = (u, v, dd)" by (cases p)
    show "p \<in> set (nx_edges_from seen (e # G)) \<longleftrightarrow>
      p \<in> {(u, v, dd). \<exists>pre post na nbrs. e # G = pre @ (u, na, nbrs) # post \<and> (v, dd) \<in> set nbrs
        \<and> v \<notin> set seen \<and> v \<notin> fst ` set pre}"
      unfolding p using * [of u v dd] by simp
  qed
qed

lemma nx_edges_data_sound:
  assumes "nx_wf G" and "(u, v, dd) \<in> set (nx_edges_data G)"
  shows "nx_get_edge_data G u v = Some dd"
proof -
  from assms(2) obtain pre post na nbrs where
    G: "G = pre @ (u, na, nbrs) # post" and m: "(v, dd) \<in> set nbrs"
    unfolding nx_edges_data_def set_nx_edges_from by blast
  have d: "distinct (map fst G)"
    using assms(1) by (simp add: nx_wf_def)
  have "(u, na, nbrs) \<in> set G"
    by (simp add: G)
  then have 1: "map_of G u = Some (na, nbrs)"
    using d by simp
  then have "distinct (map fst nbrs)"
    using assms(1) unfolding nx_wf_def by blast
  then have "map_of nbrs v = Some dd"
    using m by simp
  then show ?thesis
    by (simp add: nx_get_edge_data_def 1)
qed

lemma nx_edges_data_complete:
  assumes "nx_wf G" and "nx_get_edge_data G x y = Some dd"
  shows "(x, y, dd) \<in> set (nx_edges_data G) \<or> (y, x, dd) \<in> set (nx_edges_data G)"
proof -
  have d: "distinct (map fst G)"
    using assms(1) by (simp add: nx_wf_def)
  have sym: "nx_get_edge_data G y x = Some dd"
    using assms unfolding nx_wf_def by metis
  from assms(2) obtain nax nbx where x: "map_of G x = Some (nax, nbx)" and xy: "map_of nbx y = Some dd"
    by (auto simp: nx_get_edge_data_def split: option.splits)
  from sym obtain nay nby where y: "map_of G y = Some (nay, nby)" and yx: "map_of nby x = Some dd"
    by (auto simp: nx_get_edge_data_def split: option.splits)
  have mx: "(x, nax, nbx) \<in> set G" and my: "(y, nay, nby) \<in> set G"
    using x y by (auto dest: map_of_SomeD)
  have ixy: "(y, dd) \<in> set nbx" and iyx: "(x, dd) \<in> set nby"
    using xy yx by (auto dest: map_of_SomeD)
  from mx obtain pre post where G: "G = pre @ (x, nax, nbx) # post"
    by (auto dest: split_list)
  show ?thesis
  proof (cases "y \<in> fst ` set pre")
    case False
    then have "(x, y, dd) \<in> set (nx_edges_from [] G)"
      unfolding set_nx_edges_from using G ixy by auto
    then show ?thesis by (simp add: nx_edges_data_def)
  next
    case True
    then obtain ey where e: "(y, ey) \<in> set pre" by auto
    then have "(y, ey) \<in> set G" by (simp add: G)
    then have "map_of G y = Some ey"
      using d by simp
    then have "ey = (nay, nby)"
      using y by simp
    then obtain pre' mid where pre: "pre = pre' @ (y, nay, nby) # mid"
      using e by (auto dest: split_list)
    have "x \<notin> fst ` set pre'"
      using d unfolding G pre by auto
    then have "(y, x, dd) \<in> set (nx_edges_from [] G)"
      unfolding set_nx_edges_from using G pre iyx by auto
    then show ?thesis by (simp add: nx_edges_data_def)
  qed
qed


subsection \<open>Attribute dictionaries made by \<open>add_link\<close>\<close>

lemma update_keeps_head:
  "k \<noteq> k0 \<Longrightarrow> AList.update k v ((k0, v0) # rest) = (k0, v0) # AList.update k v rest"
  by simp

lemma dict_update_keeps_head:
  "k0 \<notin> fst ` set e \<Longrightarrow> \<exists>rest'. dict_update ((k0, v0) # rest) e = (k0, v0) # rest'"
  unfolding dict_update_def
proof (induction e arbitrary: rest)
  case Nil
  show ?case by simp
next
  case (Cons a e)
  obtain k v where a: "a = (k, v)" by (cases a)
  have "k \<noteq> k0" and "k0 \<notin> fst ` set e"
    using Cons.prems by (auto simp: a)
  then show ?case
    using Cons.IH [of "AList.update k v rest"] by (simp add: a)
qed

lemma dict_update_distinct_same:
  "distinct (map fst e) \<Longrightarrow> set e \<subseteq> set d \<Longrightarrow> distinct (map fst d) \<Longrightarrow> dict_update d e = d"
  unfolding dict_update_def
proof (induction e)
  case Nil
  show ?case by simp
next
  case (Cons a e)
  obtain k v where a: "a = (k, v)" by (cases a)
  have "map_of d k = Some v"
    using Cons.prems by (simp add: a)
  then have "AList.update k v d = d"
    by (rule AList.update_triv)
  then show ?case
    using Cons by (simp add: a)
qed

lemma update_head_link_type:
  assumes "d = [] \<or> starts_lt d"
  shows "\<exists>rest0. AList.update ''link_type'' v d = (''link_type'', v) # rest0"
proof (cases "d = []")
  case True
  then show ?thesis by simp
next
  case False
  then obtain lt rest where "d = (''link_type'', VLinkType lt) # rest"
    using assms unfolding starts_lt_def by blast
  then have "AList.update ''link_type'' v d = (''link_type'', v) # rest"
    by simp
  then show ?thesis by blast
qed

lemma good_dict_update:
  assumes "d = [] \<or> good_attrs d" and "good_attrs e"
  shows "good_attrs (dict_update d e)"
proof -
  from assms(2) have de: "distinct (map fst e)" and "starts_lt e"
    unfolding good_attrs_def by blast+
  then obtain lt rest where e: "e = (''link_type'', VLinkType lt) # rest"
    unfolding starts_lt_def by blast
  have nk: "''link_type'' \<notin> fst ` set rest"
    using de unfolding e by (simp add: image_iff)
  have dd: "distinct (map fst d)"
    using assms(1) unfolding good_attrs_def by (cases "d = []") simp_all
  have 1: "distinct (map fst (dict_update d e))"
    using dd by (rule distinct_dict_update)
  have "d = [] \<or> starts_lt d"
    using assms(1) unfolding good_attrs_def by blast
  then obtain rest0 where u: "AList.update ''link_type'' (VLinkType lt) d = (''link_type'', VLinkType lt) # rest0"
    using update_head_link_type by blast
  have "dict_update d e = dict_update (AList.update ''link_type'' (VLinkType lt) d) rest"
    unfolding dict_update_def e by simp
  then have "dict_update d e = dict_update ((''link_type'', VLinkType lt) # rest0) rest"
    unfolding u .
  moreover obtain rest' where
    "dict_update ((''link_type'', VLinkType lt) # rest0) rest = (''link_type'', VLinkType lt) # rest'"
    using dict_update_keeps_head [OF nk] by blast
  ultimately have "dict_update d e = (''link_type'', VLinkType lt) # rest'"
    by (rule trans)
  then have "starts_lt (dict_update d e)"
    unfolding starts_lt_def by (intro exI)
  then show ?thesis
    using 1 unfolding good_attrs_def by blast
qed

lemma good_link_data:
  assumes "''link_type'' \<notin> fst ` set kw"
  shows "good_attrs (link_data lt ly si ti now kw)"
proof -
  have "distinct (map fst (link_data lt ly si ti now kw))"
    unfolding link_data_def by (rule distinct_dict_update) simp
  moreover have "starts_lt (link_data lt ly si ti now kw)"
    unfolding link_data_def starts_lt_def
    using dict_update_keeps_head [OF assms] by blast
  ultimately show ?thesis by (simp add: good_attrs_def)
qed

lemma merge_edge_data_good: "starts_lt d \<Longrightarrow> merge_edge_data d = Inl TypeError"
  by (auto simp: starts_lt_def merge_edge_data_def merge_one_def subscript_def bnd_def)

subsection \<open>The duplicate pass on graphs made by \<open>add_link\<close>\<close>

lemma nx_good_empty: "nx_good []"
  by (simp add: nx_good_def nx_get_edge_data_def)

lemma nx_good_add_edge:
  assumes "nx_good G" and "good_attrs a"
  shows "nx_good (nx_add_edge G u v a)"
  unfolding nx_good_def
proof (intro allI impI)
  fix x y d
  assume h: "nx_get_edge_data (nx_add_edge G u v a) x y = Some d"
  show "good_attrs d"
  proof (cases "{x, y} = {u, v}")
    case True
    have "(case nx_get_edge_data G u v of None \<Rightarrow> [] | Some d \<Rightarrow> d) = [] \<or>
          good_attrs (case nx_get_edge_data G u v of None \<Rightarrow> [] | Some d \<Rightarrow> d)"
      using assms(1) unfolding nx_good_def by (cases "nx_get_edge_data G u v") auto
    then have "good_attrs (dict_update (case nx_get_edge_data G u v of None \<Rightarrow> [] | Some d \<Rightarrow> d) a)"
      using assms(2) by (rule good_dict_update)
    then show ?thesis
      using h True unfolding get_edge_data_nx_add_edge by simp
  next
    case False
    then have "nx_get_edge_data G x y = Some d"
      using h unfolding get_edge_data_nx_add_edge by simp
    then show ?thesis
      using assms(1) unfolding nx_good_def by blast
  qed
qed

lemma merge_loop_good:
  assumes "nx_good G"
  shows "merge_loop G dups = Inr G \<or> (\<exists>e. merge_loop G dups = Inl (e, G))"
proof (cases dups)
  case Nil
  then show ?thesis by simp
next
  case (Cons p rest)
  obtain s t where p: "p = (s, t)" by (cases p)
  show ?thesis
  proof (cases "nx_get_edge_data G s t")
    case None
    then show ?thesis by (simp add: Cons p)
  next
    case (Some edges)
    then have "good_attrs edges"
      using assms unfolding nx_good_def by blast
    then have "merge_edge_data edges = Inl TypeError"
      unfolding good_attrs_def by (intro merge_edge_data_good) simp
    then show ?thesis by (simp add: Cons p Some)
  qed
qed

lemma merge_duplicate_links_good:
  assumes "nx_good G"
  shows "merge_duplicate_links G = Inr G \<or> (\<exists>e. merge_duplicate_links G = Inl (e, G))"
proof (cases "find_duplicates G (nx_edges_data G)")
  case (Inl e)
  then show ?thesis by (simp add: merge_duplicate_links_def)
next
  case (Inr dups)
  then show ?thesis
    using merge_loop_good [OF assms, of dups] by (simp add: merge_duplicate_links_def)
qed

lemma topology_merge_topologies_good:
  assumes "nx_good (nx_add_edges_from
             (nx_add_nodes_from
               (nx_add_edges_from (nx_add_nodes_from (topology st) (nx_nodes_data (layer2_topology st)))
                 (nx_edges_data (layer2_topology st)))
               (nx_nodes_data (layer3_topology st)))
             (nx_edges_data (layer3_topology st)))"
  shows "topology (merge_topologies st) =
           nx_add_edges_from
             (nx_add_nodes_from
               (nx_add_edges_from (nx_add_nodes_from (topology st) (nx_nodes_data (layer2_topology st)))
                 (nx_edges_data (layer2_topology st)))
               (nx_nodes_data (layer3_topology st)))
             (nx_edges_data (layer3_topology st))"
  using merge_duplicate_links_good [OF assms]
  by (auto simp: merge_topologies_def Let_def log_error_def)

subsection \<open>The layer graphs after \<open>add_links\<close>\<close>

lemma layer2_add_raw_link:
  "layer2_topology (add_raw_link clk r st) =
     (if rl_layer r = L2
      then nx_add_edge (layer2_topology st) (rl_source r) (rl_target r) (rl_data r (clk (time_calls st)))
      else layer2_topology st)"
  by (simp add: add_raw_link_def add_link_def time_time_def rl_data_def Let_def)

lemma layer3_add_raw_link:
  "layer3_topology (add_raw_link clk r st) =
     (if rl_layer r = L3
      then nx_add_edge (layer3_topology st) (rl_source r) (rl_target r) (rl_data r (clk (time_calls st)))
      else layer3_topology st)"
  by (simp add: add_raw_link_def add_link_def time_time_def rl_data_def Let_def)

lemma topology_add_links: "topology (add_links clk st rs) = topology st"
  unfolding add_links_def
  by (induction rs arbitrary: st) (simp_all add: add_raw_link_def add_link_def time_time_def Let_def)

lemma add_links_Cons: "add_links clk st (r # rs) = add_links clk (add_raw_link clk r st) rs"
  by (simp add: add_links_def)

lemma good_rl_data: "''link_type'' \<notin> fst ` set (rl_kwargs r) \<Longrightarrow> good_attrs (rl_data r t)"
  unfolding rl_data_def by (rule good_link_data)

lemma adds_selected_layer2: "adds_selected clk layer2_topology (\<lambda>r. rl_layer r = L2)"
  by (simp add: adds_selected_def layer2_add_raw_link)

lemma adds_selected_layer3: "adds_selected clk layer3_topology (\<lambda>r. rl_layer r = L3)"
  by (simp add: adds_selected_def layer3_add_raw_link)

lemma add_links_wf:
  assumes "adds_selected clk g sel" and "nx_wf (g st)"
  shows "nx_wf (g (add_links clk st rs))"
  using assms(2)
proof (induction rs arbitrary: st)
  case Nil
  then show ?case by (simp add: add_links_def)
next
  case (Cons r rs)
  have "nx_wf (g (add_raw_link clk r st))"
    using assms(1) Cons.prems unfolding adds_selected_def by (simp add: nx_wf_add_edge)
  then show ?case
    unfolding add_links_Cons by (rule Cons.IH)
qed

lemma add_links_good:
  assumes "adds_selected clk g sel" and "nx_good (g st)"
    and "\<forall>r \<in> set rs. ''link_type'' \<notin> fst ` set (rl_kwargs r)"
  shows "nx_good (g (add_links clk st rs))"
  using assms(2,3)
proof (induction rs arbitrary: st)
  case Nil
  then show ?case by (simp add: add_links_def)
next
  case (Cons r rs)
  have "good_attrs (rl_data r (clk (time_calls st)))"
    using Cons.prems(2) by (intro good_rl_data) simp
  then have "nx_good (g (add_raw_link clk r st))"
    using assms(1) Cons.prems(1) unfolding adds_selected_def by (simp add: nx_good_add_edge)
  then show ?case
    unfolding add_links_Cons using Cons.prems(2) by (intro Cons.IH) simp_all
qed

lemma add_links_dom:
  assumes "adds_selected clk g sel"
  shows "dom (map_of (g (add_links clk st rs))) =
           dom (map_of (g st)) \<union> \<Union> (link_pair ` {r \<in> set rs. sel r})"
proof (induction rs arbitrary: st)
  case Nil
  show ?case by (simp add: add_links_def)
next
  case (Cons r rs)
  have "dom (map_of (g (add_raw_link clk r st))) =
      dom (map_of (g st)) \<union> (if sel r then link_pair r else {})"
    using assms unfolding adds_selected_def by (simp add: dom_nx_add_edge link_pair_def)
  then show ?case
    unfolding add_links_Cons Cons.IH by auto
qed

lemma add_links_other:
  assumes "adds_selected clk g sel" and "\<forall>r \<in> set rs. sel r \<longrightarrow> link_pair r \<noteq> {x, y}"
  shows "nx_get_edge_data (g (add_links clk st rs)) x y = nx_get_edge_data (g st) x y"
  using assms(2)
proof (induction rs arbitrary: st)
  case Nil
  show ?case by (simp add: add_links_def)
next
  case (Cons r rs)
  have "nx_get_edge_data (g (add_raw_link clk r st)) x y = nx_get_edge_data (g st) x y"
  proof (cases "sel r")
    case True
    then have "{x, y} \<noteq> {rl_source r, rl_target r}"
      using Cons.prems unfolding link_pair_def by auto
    then show ?thesis
      using assms(1) True unfolding adds_selected_def by (simp add: get_edge_data_nx_add_edge)
  next
    case False
    then show ?thesis
      using assms(1) unfolding adds_selected_def by simp
  qed
  moreover have "nx_get_edge_data (g (add_links clk (add_raw_link clk r st) rs)) x y
      = nx_get_edge_data (g (add_raw_link clk r st)) x y"
    using Cons.prems by (intro Cons.IH) simp
  ultimately show ?case
    unfolding add_links_Cons by simp
qed

lemma add_links_selected:
  assumes "adds_selected clk g sel" and "distinct (map link_pair rs)"
    and "r \<in> set rs" and "sel r"
    and "nx_get_edge_data (g st) (rl_source r) (rl_target r) = None"
  shows "\<exists>t. nx_get_edge_data (g (add_links clk st rs)) (rl_source r) (rl_target r)
              = Some (dict_update [] (rl_data r t))"
  using assms(2,3,5)
proof (induction rs arbitrary: st)
  case Nil
  then show ?case by simp
next
  case (Cons r0 rs)
  show ?case
  proof (cases "r = r0")
    case True
    have "\<forall>r' \<in> set rs. sel r' \<longrightarrow> link_pair r' \<noteq> {rl_source r, rl_target r}"
      using Cons.prems(1) True unfolding link_pair_def by (auto simp: image_iff)
    then have "nx_get_edge_data (g (add_links clk (add_raw_link clk r0 st) rs)) (rl_source r) (rl_target r)
        = nx_get_edge_data (g (add_raw_link clk r0 st)) (rl_source r) (rl_target r)"
      by (rule add_links_other [OF assms(1)])
    also have "\<dots> = Some (dict_update [] (rl_data r (clk (time_calls st))))"
      using assms(1,4) Cons.prems(3) True unfolding adds_selected_def
      by (simp add: get_edge_data_nx_add_edge)
    finally show ?thesis
      unfolding add_links_Cons by blast
  next
    case False
    then have r: "r \<in> set rs"
      using Cons.prems(2) by simp
    then have "link_pair r \<noteq> link_pair r0"
      using Cons.prems(1) by (auto simp: image_iff)
    then have "{rl_source r, rl_target r} \<noteq> {rl_source r0, rl_target r0}"
      unfolding link_pair_def .
    then have "nx_get_edge_data (g (add_raw_link clk r0 st)) (rl_source r) (rl_target r) = None"
      using assms(1) Cons.prems(3) unfolding adds_selected_def
      by (simp add: get_edge_data_nx_add_edge)
    then show ?thesis
      unfolding add_links_Cons using Cons.prems(1) r by (intro Cons.IH) simp_all
  qed
qed

subsection \<open>Adding the nodes and edges of another graph\<close>

lemma nx_add_nodes_from_fold: "nx_add_nodes_from G ns = fold add_node1 ns G"
  unfolding nx_add_nodes_from_def add_node1_def ..

lemma map_of_add_node1:
  "map_of (add_node1 (n, dd) H) x =
     (if x = n then
        (case map_of H n of None \<Rightarrow> Some (dict_update [] dd, [])
         | Some (na, nbrs) \<Rightarrow> Some (dict_update na dd, nbrs))
      else map_of H x)"
  by (auto simp: add_node1_def update_conv' map_add_def split: option.splits)

lemma get_edge_data_add_node1: "nx_get_edge_data (add_node1 p H) x y = nx_get_edge_data H x y"
  by (cases p) (auto simp: nx_get_edge_data_def map_of_add_node1 split: option.splits)

lemma dom_add_node1: "dom (map_of (add_node1 p H)) = insert (fst p) (dom (map_of H))"
  by (cases p) (auto simp: map_of_add_node1 dom_def split: option.splits if_splits)

lemma distinct_add_node1: "distinct (map fst H) \<Longrightarrow> distinct (map fst (add_node1 p H))"
  by (cases p) (auto simp: add_node1_def distinct_update map_of_eq_None_iff split: option.splits)

lemma nx_wf_add_node1:
  assumes "nx_wf H"
  shows "nx_wf (add_node1 p H)"
proof -
  obtain n dd where p: "p = (n, dd)" by (cases p)
  have "distinct (map fst nbrs)" if "map_of (add_node1 p H) m = Some (na, nbrs)" for m na nbrs
    using that assms unfolding p map_of_add_node1 nx_wf_def
    by (auto split: if_splits option.splits)
  then show ?thesis
    using assms unfolding nx_wf_def get_edge_data_add_node1
    by (auto simp: distinct_add_node1)
qed

lemma get_edge_data_add_nodes_from:
  "nx_get_edge_data (nx_add_nodes_from G ns) x y = nx_get_edge_data G x y"
  unfolding nx_add_nodes_from_fold
  by (induction ns arbitrary: G) (simp_all add: get_edge_data_add_node1)

lemma dom_add_nodes_from: "dom (map_of (nx_add_nodes_from G ns)) = dom (map_of G) \<union> fst ` set ns"
  unfolding nx_add_nodes_from_fold
  by (induction ns arbitrary: G) (auto simp: dom_add_node1)

lemma nx_wf_add_nodes_from: "nx_wf G \<Longrightarrow> nx_wf (nx_add_nodes_from G ns)"
  unfolding nx_add_nodes_from_fold
  by (induction ns arbitrary: G) (simp_all add: nx_wf_add_node1)

lemma nx_good_add_nodes_from: "nx_good G \<Longrightarrow> nx_good (nx_add_nodes_from G ns)"
  unfolding nx_good_def get_edge_data_add_nodes_from .

lemma nx_add_edges_from_Cons:
  "nx_add_edges_from G ((u, v, a) # es) = nx_add_edges_from (nx_add_edge G u v a) es"
  by (simp add: nx_add_edges_from_def)

lemma nx_wf_add_edges_from: "nx_wf G \<Longrightarrow> nx_wf (nx_add_edges_from G es)"
proof (induction es arbitrary: G)
  case Nil
  then show ?case by (simp add: nx_add_edges_from_def)
next
  case (Cons e es)
  obtain u v a where e: "e = (u, v, a)" by (cases e)
  show ?case
    unfolding e nx_add_edges_from_Cons using Cons.prems by (intro Cons.IH nx_wf_add_edge)
qed

lemma nx_good_add_edges_from:
  "nx_good G \<Longrightarrow> \<forall>(u, v, a) \<in> set es. good_attrs a \<Longrightarrow> nx_good (nx_add_edges_from G es)"
proof (induction es arbitrary: G)
  case Nil
  then show ?case by (simp add: nx_add_edges_from_def)
next
  case (Cons e es)
  obtain u v a where e: "e = (u, v, a)" by (cases e)
  have "nx_good (nx_add_edge G u v a)"
    using Cons.prems by (intro nx_good_add_edge) (simp_all add: e)
  then show ?case
    unfolding e nx_add_edges_from_Cons using Cons.prems(2) by (intro Cons.IH) simp_all
qed

lemma dom_add_edges_from:
  "dom (map_of (nx_add_edges_from G es)) = dom (map_of G) \<union> (\<Union>(u, v, a) \<in> set es. {u, v})"
proof (induction es arbitrary: G)
  case Nil
  show ?case by (simp add: nx_add_edges_from_def)
next
  case (Cons e es)
  obtain u v a where e: "e = (u, v, a)" by (cases e)
  show ?case
    unfolding e nx_add_edges_from_Cons Cons.IH dom_nx_add_edge by auto
qed

lemma edge_attrs_add_edge:
  assumes "distinct (map fst a)"
  shows "edge_attrs (nx_add_edge G u v a) x y =
     (if {x, y} = {u, v}
      then Some ((case edge_attrs G u v of None \<Rightarrow> Map.empty | Some m \<Rightarrow> m) ++ map_of a)
      else edge_attrs G x y)"
proof -
  have "map_of (dict_update (case nx_get_edge_data G u v of None \<Rightarrow> [] | Some d \<Rightarrow> d) a)
      = (case edge_attrs G u v of None \<Rightarrow> Map.empty | Some m \<Rightarrow> m) ++ map_of a"
    unfolding map_of_dict_update map_of_rev_distinct [OF assms] edge_attrs_def
    by (cases "nx_get_edge_data G u v") simp_all
  then show ?thesis
    unfolding edge_attrs_def get_edge_data_nx_add_edge by simp
qed

lemma nx_wf_sym: "nx_wf G \<Longrightarrow> nx_get_edge_data G x y = nx_get_edge_data G y x"
  by (simp add: nx_wf_def)

lemma edge_attrs_sym: "nx_wf G \<Longrightarrow> edge_attrs G x y = edge_attrs G y x"
  by (simp add: edge_attrs_def nx_wf_sym [of G x y])

lemma edge_attrs_pair:
  assumes "nx_wf G" and "{x, y} = {u, v}"
  shows "edge_attrs G x y = edge_attrs G u v"
proof -
  from assms(2) consider "x = u" "y = v" | "x = v" "y = u"
    unfolding doubleton_eq_iff by blast
  then show ?thesis
    using edge_attrs_sym [OF assms(1), of v u] by cases simp_all
qed

lemma map_add_twice: "(m ++ n) ++ n = m ++ n"
  by (rule ext) (simp add: map_add_def split: option.splits)

lemma edge_attrs_add_edges_from:
  assumes "nx_wf T"
    and "\<And>u v a. (u, v, a) \<in> set es \<Longrightarrow>
           distinct (map fst a) \<and> f u v = Some (map_of a) \<and> f v u = Some (map_of a)"
  shows "edge_attrs (nx_add_edges_from T es) x y =
     (if \<exists>u v a. (u, v, a) \<in> set es \<and> {u, v} = {x, y}
      then Some ((case edge_attrs T x y of None \<Rightarrow> Map.empty | Some m \<Rightarrow> m) ++ the (f x y))
      else edge_attrs T x y)"
  using assms
proof (induction es arbitrary: T)
  case Nil
  show ?case by (simp add: nx_add_edges_from_def)
next
  case (Cons e es)
  obtain u v a where e: "e = (u, v, a)" by (cases e)
  define T' where "T' = nx_add_edge T u v a"
  have wf': "nx_wf T'"
    unfolding T'_def using Cons.prems(1) by (rule nx_wf_add_edge)
  have a: "distinct (map fst a)" "f u v = Some (map_of a)" "f v u = Some (map_of a)"
    using Cons.prems(2) [of u v a] by (simp_all add: e)
  have p2: "distinct (map fst a') \<and> f u' v' = Some (map_of a') \<and> f v' u' = Some (map_of a')"
    if "(u', v', a') \<in> set es" for u' v' a'
    using Cons.prems(2) [of u' v' a'] that by simp
  have IH: "edge_attrs (nx_add_edges_from T' es) x y =
     (if \<exists>u v a. (u, v, a) \<in> set es \<and> {u, v} = {x, y}
      then Some ((case edge_attrs T' x y of None \<Rightarrow> Map.empty | Some m \<Rightarrow> m) ++ the (f x y))
      else edge_attrs T' x y)"
    using wf' p2 by (rule Cons.IH)
  have step: "nx_add_edges_from T (e # es) = nx_add_edges_from T' es"
    unfolding e T'_def nx_add_edges_from_Cons ..
  show ?case
  proof (cases "{x, y} = {u, v}")
    case True
    have fxy: "f x y = Some (map_of a)"
    proof -
      from True consider "x = u" "y = v" | "x = v" "y = u"
        unfolding doubleton_eq_iff by blast
      then show ?thesis using a by cases simp_all
    qed
    have old: "edge_attrs T u v = edge_attrs T x y"
      using edge_attrs_pair [OF Cons.prems(1) True] by simp
    have T'xy: "edge_attrs T' x y =
        Some ((case edge_attrs T x y of None \<Rightarrow> Map.empty | Some m \<Rightarrow> m) ++ map_of a)"
      unfolding T'_def edge_attrs_add_edge [OF a(1)] old using True by simp
    have ex: "\<exists>u' v' a'. (u', v', a') \<in> set (e # es) \<and> {u', v'} = {x, y}"
      using True unfolding e by auto
    have "edge_attrs (nx_add_edges_from T' es) x y =
        Some ((case edge_attrs T x y of None \<Rightarrow> Map.empty | Some m \<Rightarrow> m) ++ map_of a)"
      unfolding IH T'xy fxy by (simp add: map_add_twice)
    then show ?thesis
      unfolding step using ex fxy by simp
  next
    case False
    have T'xy: "edge_attrs T' x y = edge_attrs T x y"
      unfolding T'_def edge_attrs_add_edge [OF a(1)] using False by simp
    have "(\<exists>u' v' a'. (u', v', a') \<in> set (e # es) \<and> {u', v'} = {x, y})
        \<longleftrightarrow> (\<exists>u' v' a'. (u', v', a') \<in> set es \<and> {u', v'} = {x, y})"
      using False unfolding e by auto
    then show ?thesis
      unfolding step IH T'xy by simp
  qed
qed

lemma edge_attrs_add_edges_from_graph:
  assumes "nx_wf T" and "nx_wf L" and "nx_good L"
  shows "edge_attrs (nx_add_edges_from T (nx_edges_data L)) x y =
     (case edge_attrs L x y of
        None \<Rightarrow> edge_attrs T x y
      | Some m \<Rightarrow> Some ((case edge_attrs T x y of None \<Rightarrow> Map.empty | Some m' \<Rightarrow> m') ++ m))"
proof -
  have f: "distinct (map fst a) \<and> edge_attrs L u v = Some (map_of a) \<and> edge_attrs L v u = Some (map_of a)"
    if "(u, v, a) \<in> set (nx_edges_data L)" for u v a
  proof -
    have 1: "nx_get_edge_data L u v = Some a"
      using assms(2) that by (rule nx_edges_data_sound)
    then have "good_attrs a"
      using assms(3) unfolding nx_good_def by blast
    then have "distinct (map fst a)"
      unfolding good_attrs_def by simp
    moreover have "edge_attrs L u v = Some (map_of a)"
      unfolding edge_attrs_def 1 by simp
    moreover have "edge_attrs L v u = Some (map_of a)"
      using edge_attrs_sym [OF assms(2), of v u] calculation(2) by simp
    ultimately show ?thesis by simp
  qed
  have ex: "(\<exists>u v a. (u, v, a) \<in> set (nx_edges_data L) \<and> {u, v} = {x, y}) \<longleftrightarrow> edge_attrs L x y \<noteq> None"
  proof
    assume A: "\<exists>u v a. (u, v, a) \<in> set (nx_edges_data L) \<and> {u, v} = {x, y}"
    show "edge_attrs L x y \<noteq> None"
      using A
    proof (elim exE conjE)
      fix u v a
      assume m: "(u, v, a) \<in> set (nx_edges_data L)" and q: "{u, v} = {x, y}"
      have p: "{x, y} = {u, v}"
        using q by (rule sym)
      have "edge_attrs L x y = edge_attrs L u v"
        using assms(2) p by (rule edge_attrs_pair)
      then show "edge_attrs L x y \<noteq> None"
        using f [OF m] by simp
    qed
  next
    assume "edge_attrs L x y \<noteq> None"
    then obtain dd where "nx_get_edge_data L x y = Some dd"
      unfolding edge_attrs_def by (cases "nx_get_edge_data L x y") simp_all
    then have "(x, y, dd) \<in> set (nx_edges_data L) \<or> (y, x, dd) \<in> set (nx_edges_data L)"
      using assms(2) by (intro nx_edges_data_complete)
    then show "\<exists>u v a. (u, v, a) \<in> set (nx_edges_data L) \<and> {u, v} = {x, y}"
    proof
      assume "(x, y, dd) \<in> set (nx_edges_data L)"
      then have "(x, y, dd) \<in> set (nx_edges_data L) \<and> {x, y} = {x, y}"
        by simp
      then show ?thesis by (intro exI)
    next
      assume "(y, x, dd) \<in> set (nx_edges_data L)"
      then have "(y, x, dd) \<in> set (nx_edges_data L) \<and> {y, x} = {x, y}"
        by (simp add: insert_commute)
      then show ?thesis by (intro exI)
    qed
  qed
  have "edge_attrs (nx_add_edges_from T (nx_edges_data L)) x y =
     (if \<exists>u v a. (u, v, a) \<in> set (nx_edges_data L) \<and> {u, v} = {x, y}
      then Some ((case edge_attrs T x y of None \<Rightarrow> Map.empty | Some m \<Rightarrow> m) ++ the (edge_attrs L x y))
      else edge_attrs T x y)"
    using assms(1) f by (rule edge_attrs_add_edges_from)
  then have "edge_attrs (nx_add_edges_from T (nx_edges_data L)) x y =
     (if edge_attrs L x y \<noteq> None
      then Some ((case edge_attrs T x y of None \<Rightarrow> Map.empty | Some m \<Rightarrow> m) ++ the (edge_attrs L x y))
      else edge_attrs T x y)"
    unfolding ex .
  then show ?thesis
    by (cases "edge_attrs L x y") simp_all
qed

lemma edge_set_wf:
  assumes "nx_wf G"
  shows "edge_set G = {{x, y} | x y. nx_get_edge_data G x y \<noteq> None}"
proof (intro set_eqI iffI)
  fix e assume "e \<in> edge_set G"
  then obtain u v where uv: "(u, v) \<in> set (nx_edges G)" and e: "e = {u, v}"
    unfolding edge_set_def by (elim imageE) (simp add: case_prod_beta prod_eq_iff, metis prod.collapse)
  from uv obtain dd where "(u, v, dd) \<in> set (nx_edges_data G)"
    unfolding nx_edges_def by auto
  then have "nx_get_edge_data G u v = Some dd"
    using assms by (intro nx_edges_data_sound)
  then show "e \<in> {{x, y} | x y. nx_get_edge_data G x y \<noteq> None}"
    unfolding e by blast
next
  fix e assume "e \<in> {{x, y} | x y. nx_get_edge_data G x y \<noteq> None}"
  then obtain x y dd where e: "e = {x, y}" and d: "nx_get_edge_data G x y = Some dd"
    by blast
  have "(x, y, dd) \<in> set (nx_edges_data G) \<or> (y, x, dd) \<in> set (nx_edges_data G)"
    using assms d by (rule nx_edges_data_complete)
  then have "(x, y) \<in> set (nx_edges G) \<or> (y, x) \<in> set (nx_edges G)"
    unfolding nx_edges_def by force
  then show "e \<in> edge_set G"
  proof
    assume "(x, y) \<in> set (nx_edges G)"
    then have "(\<lambda>(u, v). {u, v}) (x, y) \<in> edge_set G"
      unfolding edge_set_def by (rule imageI)
    then show ?thesis unfolding e by simp
  next
    assume "(y, x) \<in> set (nx_edges G)"
    then have "(\<lambda>(u, v). {u, v}) (y, x) \<in> edge_set G"
      unfolding edge_set_def by (rule imageI)
    then show ?thesis unfolding e by (simp add: insert_commute)
  qed
qed

subsection \<open>The unified graph\<close>

lemma edges_data_good:
  assumes "nx_wf L" and "nx_good L"
  shows "\<forall>(u, v, a) \<in> set (nx_edges_data L). good_attrs a"
proof (intro ballI, clarify)
  fix u v a assume "(u, v, a) \<in> set (nx_edges_data L)"
  then have "nx_get_edge_data L u v = Some a"
    using assms(1) by (intro nx_edges_data_sound)
  then show "good_attrs a"
    using assms(2) unfolding nx_good_def by blast
qed

lemma edges_data_endpoints:
  assumes "nx_wf L"
  shows "(\<Union>(u, v, a) \<in> set (nx_edges_data L). {u, v}) \<subseteq> dom (map_of L)"
proof
  fix z assume "z \<in> (\<Union>(u, v, a) \<in> set (nx_edges_data L). {u, v})"
  then obtain u v a where m: "(u, v, a) \<in> set (nx_edges_data L)" and z: "z = u \<or> z = v"
    by auto
  have 1: "nx_get_edge_data L u v = Some a"
    using assms m by (rule nx_edges_data_sound)
  then have 2: "nx_get_edge_data L v u = Some a"
    using nx_wf_sym [OF assms, of v u] by simp
  have "u \<in> dom (map_of L)" and "v \<in> dom (map_of L)"
    using 1 2 unfolding nx_get_edge_data_def by (auto split: option.splits)
  then show "z \<in> dom (map_of L)"
    using z by blast
qed

lemma merged_graph_wf:
  "nx_wf T \<Longrightarrow> nx_wf (merged_graph T G2 G3)"
  unfolding merged_graph_def
  by (intro nx_wf_add_edges_from nx_wf_add_nodes_from)

lemma merged_graph_good:
  assumes "nx_good T" and "nx_wf G2" and "nx_good G2" and "nx_wf G3" and "nx_good G3"
  shows "nx_good (merged_graph T G2 G3)"
  unfolding merged_graph_def
  using assms
  by (intro nx_good_add_edges_from nx_good_add_nodes_from edges_data_good)

lemma merged_graph_dom:
  assumes "nx_wf G2" and "nx_wf G3"
  shows "dom (map_of (merged_graph T G2 G3)) = dom (map_of T) \<union> dom (map_of G2) \<union> dom (map_of G3)"
proof -
  have n: "fst ` set (nx_nodes_data G) = dom (map_of G)" for G :: nxgraph
    unfolding nx_nodes_data_def dom_map_of_conv_image_fst by force
  show ?thesis
    unfolding merged_graph_def dom_add_edges_from dom_add_nodes_from n
    using edges_data_endpoints [OF assms(1)] edges_data_endpoints [OF assms(2)]
    by blast
qed

lemma merged_graph_edge_attrs:
  assumes "nx_wf T" and "nx_wf G2" and "nx_good G2" and "nx_wf G3" and "nx_good G3"
  shows "edge_attrs (merged_graph T G2 G3) x y =
     (case edge_attrs G3 x y of
        None \<Rightarrow>
          (case edge_attrs G2 x y of
             None \<Rightarrow> edge_attrs T x y
           | Some m2 \<Rightarrow> Some ((case edge_attrs T x y of None \<Rightarrow> Map.empty | Some m \<Rightarrow> m) ++ m2))
      | Some m3 \<Rightarrow>
          Some ((case edge_attrs G2 x y of
                   None \<Rightarrow> (case edge_attrs T x y of None \<Rightarrow> Map.empty | Some m \<Rightarrow> m)
                 | Some m2 \<Rightarrow> (case edge_attrs T x y of None \<Rightarrow> Map.empty | Some m \<Rightarrow> m) ++ m2) ++ m3))"
proof -
  define T1 where "T1 = nx_add_nodes_from T (nx_nodes_data G2)"
  define T2 where "T2 = nx_add_edges_from T1 (nx_edges_data G2)"
  define T3 where "T3 = nx_add_nodes_from T2 (nx_nodes_data G3)"
  have wf1: "nx_wf T1"
    unfolding T1_def using assms(1) by (rule nx_wf_add_nodes_from)
  have wf2: "nx_wf T2"
    unfolding T2_def using wf1 by (rule nx_wf_add_edges_from)
  have wf3: "nx_wf T3"
    unfolding T3_def using wf2 by (rule nx_wf_add_nodes_from)
  have e1: "edge_attrs T1 x y = edge_attrs T x y"
    unfolding T1_def edge_attrs_def get_edge_data_add_nodes_from ..
  have e2: "edge_attrs T2 x y =
     (case edge_attrs G2 x y of
        None \<Rightarrow> edge_attrs T x y
      | Some m \<Rightarrow> Some ((case edge_attrs T x y of None \<Rightarrow> Map.empty | Some m' \<Rightarrow> m') ++ m))"
    unfolding T2_def edge_attrs_add_edges_from_graph [OF wf1 assms(2,3)] e1 ..
  have e3: "edge_attrs T3 x y = edge_attrs T2 x y"
    unfolding T3_def edge_attrs_def get_edge_data_add_nodes_from ..
  have eq: "merged_graph T G2 G3 = nx_add_edges_from T3 (nx_edges_data G3)"
    unfolding merged_graph_def T3_def T2_def T1_def ..
  have e4: "edge_attrs (nx_add_edges_from T3 (nx_edges_data G3)) x y =
     (case edge_attrs G3 x y of
        None \<Rightarrow> edge_attrs T3 x y
      | Some m \<Rightarrow> Some ((case edge_attrs T3 x y of None \<Rightarrow> Map.empty | Some m' \<Rightarrow> m') ++ m))"
    using wf3 assms(4,5) by (rule edge_attrs_add_edges_from_graph)
  show ?thesis
    unfolding eq e4 e3 e2
    by (cases "edge_attrs G3 x y"; cases "edge_attrs G2 x y") simp_all
qed

lemma topology_merge_topologies:
  assumes "nx_good (merged_graph (topology st) (layer2_topology st) (layer3_topology st))"
  shows "topology (merge_topologies st) =
           merged_graph (topology st) (layer2_topology st) (layer3_topology st)"
  using assms unfolding merged_graph_def by (rule topology_merge_topologies_good)

subsection \<open>The unified graph built from raw link records\<close>

lemma rl_data_but_timestamp:
  "map_of (rl_data r t) |` (- {''timestamp''}) = map_of (rl_data r t') |` (- {''timestamp''})"
  unfolding rl_data_def link_data_def map_of_dict_update
  by (rule ext) (simp add: restrict_map_def map_add_def split: option.splits)

lemma edge_attrs_empty: "edge_attrs [] x y = None"
  by (simp add: edge_attrs_def nx_get_edge_data_def)

lemma layer_cases: "ly \<noteq> L4 \<Longrightarrow> ly = L2 \<or> ly = L3"
  by (cases ly) simp_all

lemma distinct_map_eq:
  assumes "distinct (map f xs)" and "x \<in> set xs" and "y \<in> set xs" and "f x = f y"
  shows "x = y"
  using assms by (meson distinct_map inj_onD)

lemma layers_after_add_links:
  assumes K: "\<forall>r \<in> set rs. ''link_type'' \<notin> fst ` set (rl_kwargs r)"
  shows "nx_wf (layer2_topology (add_links clk (clear_graphs st) rs))"
    and "nx_wf (layer3_topology (add_links clk (clear_graphs st) rs))"
    and "nx_good (layer2_topology (add_links clk (clear_graphs st) rs))"
    and "nx_good (layer3_topology (add_links clk (clear_graphs st) rs))"
proof -
  have c2: "layer2_topology (clear_graphs st) = []" and c3: "layer3_topology (clear_graphs st) = []"
    by (simp_all add: clear_graphs_def nx_clear_def)
  show "nx_wf (layer2_topology (add_links clk (clear_graphs st) rs))"
    using adds_selected_layer2 by (rule add_links_wf) (simp add: c2 nx_wf_empty)
  show "nx_wf (layer3_topology (add_links clk (clear_graphs st) rs))"
    using adds_selected_layer3 by (rule add_links_wf) (simp add: c3 nx_wf_empty)
  show "nx_good (layer2_topology (add_links clk (clear_graphs st) rs))"
    using adds_selected_layer2 _ K by (rule add_links_good) (simp add: c2 nx_good_empty)
  show "nx_good (layer3_topology (add_links clk (clear_graphs st) rs))"
    using adds_selected_layer3 _ K by (rule add_links_good) (simp add: c3 nx_good_empty)
qed

lemma build_unified_merged:
  assumes K: "\<forall>r \<in> set rs. ''link_type'' \<notin> fst ` set (rl_kwargs r)"
  shows "build_unified clk st rs =
     merged_graph [] (layer2_topology (add_links clk (clear_graphs st) rs))
       (layer3_topology (add_links clk (clear_graphs st) rs))"
proof -
  have t: "topology (add_links clk (clear_graphs st) rs) = []"
    unfolding topology_add_links by (simp add: clear_graphs_def nx_clear_def)
  have "nx_good (merged_graph [] (layer2_topology (add_links clk (clear_graphs st) rs))
       (layer3_topology (add_links clk (clear_graphs st) rs)))"
    using nx_good_empty layers_after_add_links [OF K] by (intro merged_graph_good)
  then show ?thesis
    unfolding build_unified_def using topology_merge_topologies [of "add_links clk (clear_graphs st) rs"]
    unfolding t by simp
qed


lemma build_unified_wf:
  assumes K: "\<forall>r \<in> set rs. ''link_type'' \<notin> fst ` set (rl_kwargs r)"
  shows "nx_wf (build_unified clk st rs)"
  unfolding build_unified_merged [OF K] using nx_wf_empty by (rule merged_graph_wf)

lemma build_unified_nodes:
  assumes K: "\<forall>r \<in> set rs. ''link_type'' \<notin> fst ` set (rl_kwargs r)"
  shows "set (nx_nodes (build_unified clk st rs)) = \<Union> (link_pair ` {r \<in> set rs. rl_layer r \<noteq> L4})"
proof -
  have c2: "layer2_topology (clear_graphs st) = []" and c3: "layer3_topology (clear_graphs st) = []"
    by (simp_all add: clear_graphs_def nx_clear_def)
  have "{r \<in> set rs. rl_layer r \<noteq> L4} = {r \<in> set rs. rl_layer r = L2} \<union> {r \<in> set rs. rl_layer r = L3}"
    using layer_cases by auto
  then show ?thesis
    unfolding set_nx_nodes build_unified_merged [OF K]
      merged_graph_dom [OF layers_after_add_links(1,2) [OF K]]
      add_links_dom [OF adds_selected_layer2] add_links_dom [OF adds_selected_layer3] c2 c3
    by auto
qed

lemma build_unified_edge_present:
  assumes D: "distinct (map link_pair rs)"
    and K: "\<forall>r \<in> set rs. ''link_type'' \<notin> fst ` set (rl_kwargs r)"
    and r: "r \<in> set rs" "rl_layer r \<noteq> L4" "link_pair r = {x, y}"
  shows "\<exists>t. edge_attrs (build_unified clk st rs) x y = Some (map_of (rl_data r t))"
proof -
  define st' where "st' = add_links clk (clear_graphs st) rs"
  have c2: "layer2_topology (clear_graphs st) = []" and c3: "layer3_topology (clear_graphs st) = []"
    by (simp_all add: clear_graphs_def nx_clear_def)
  have emp: "nx_get_edge_data [] u v = None" for u v
    by (simp add: nx_get_edge_data_def)
  have wf2: "nx_wf (layer2_topology st')" and wf3: "nx_wf (layer3_topology st')"
    and g2: "nx_good (layer2_topology st')" and g3: "nx_good (layer3_topology st')"
    unfolding st'_def using layers_after_add_links [OF K] by blast+
  have U: "edge_attrs (build_unified clk st rs) x y =
      (case edge_attrs (layer3_topology st') x y of
         None \<Rightarrow> edge_attrs (layer2_topology st') x y
       | Some m3 \<Rightarrow>
           Some ((case edge_attrs (layer2_topology st') x y of None \<Rightarrow> Map.empty | Some m2 \<Rightarrow> m2) ++ m3))"
    unfolding build_unified_merged [OF K] st'_def [symmetric]
      merged_graph_edge_attrs [OF nx_wf_empty wf2 g2 wf3 g3]
    by (cases "edge_attrs (layer3_topology st') x y"; cases "edge_attrs (layer2_topology st') x y")
      (simp_all add: edge_attrs_empty)
  have p: "{x, y} = {rl_source r, rl_target r}"
    using r(3) unfolding link_pair_def by (rule sym)
  have other: "link_pair r' \<noteq> {x, y}" if "r' \<in> set rs" "rl_layer r' \<noteq> rl_layer r" for r'
  proof
    assume "link_pair r' = {x, y}"
    then have "link_pair r' = link_pair r"
      using r(3) by simp
    then have "r' = r"
      using D that(1) r(1) by (rule distinct_map_eq [rotated 3])
    then show False
      using that(2) by simp
  qed
  have dr: "distinct (map fst (rl_data r t))" for t
    using good_rl_data [of r t] K r(1) unfolding good_attrs_def by blast
  have val: "map_of (dict_update [] (rl_data r t)) = map_of (rl_data r t)" for t
    unfolding map_of_dict_update map_of_rev_distinct [OF dr] by simp
  from layer_cases [OF r(2)] show ?thesis
  proof
    assume l: "rl_layer r = L2"
    obtain t where "nx_get_edge_data (layer2_topology st') (rl_source r) (rl_target r)
        = Some (dict_update [] (rl_data r t))"
      unfolding st'_def
      using add_links_selected [OF adds_selected_layer2 [of clk] D r(1) l, where st = "clear_graphs st"]
      unfolding c2 emp by blast
    then have "edge_attrs (layer2_topology st') (rl_source r) (rl_target r) = Some (map_of (rl_data r t))"
      unfolding edge_attrs_def by (simp add: val)
    then have 2: "edge_attrs (layer2_topology st') x y = Some (map_of (rl_data r t))"
      using edge_attrs_pair [OF wf2 p] by simp
    have "\<forall>r' \<in> set rs. rl_layer r' = L3 \<longrightarrow> link_pair r' \<noteq> {x, y}"
      using other l by simp
    then have "nx_get_edge_data (layer3_topology st') x y = None"
      unfolding st'_def
      using add_links_other [OF adds_selected_layer3 [of clk], where rs = rs and x = x and y = y and st = "clear_graphs st"]
      unfolding c3 emp by blast
    then have 3: "edge_attrs (layer3_topology st') x y = None"
      unfolding edge_attrs_def by simp
    have "edge_attrs (build_unified clk st rs) x y = Some (map_of (rl_data r t))"
      unfolding U 2 3 by simp
    then show ?thesis ..
  next
    assume l: "rl_layer r = L3"
    obtain t where "nx_get_edge_data (layer3_topology st') (rl_source r) (rl_target r)
        = Some (dict_update [] (rl_data r t))"
      unfolding st'_def
      using add_links_selected [OF adds_selected_layer3 [of clk] D r(1) l, where st = "clear_graphs st"]
      unfolding c3 emp by blast
    then have "edge_attrs (layer3_topology st') (rl_source r) (rl_target r) = Some (map_of (rl_data r t))"
      unfolding edge_attrs_def by (simp add: val)
    then have 3: "edge_attrs (layer3_topology st') x y = Some (map_of (rl_data r t))"
      using edge_attrs_pair [OF wf3 p] by simp
    have "\<forall>r' \<in> set rs. rl_layer r' = L2 \<longrightarrow> link_pair r' \<noteq> {x, y}"
      using other l by simp
    then have "nx_get_edge_data (layer2_topology st') x y = None"
      unfolding st'_def
      using add_links_other [OF adds_selected_layer2 [of clk], where rs = rs and x = x and y = y and st = "clear_graphs st"]
      unfolding c2 emp by blast
    then have 2: "edge_attrs (layer2_topology st') x y = None"
      unfolding edge_attrs_def by simp
    have "edge_attrs (build_unified clk st rs) x y = Some (map_of (rl_data r t))"
      unfolding U 2 3 by simp
    then show ?thesis ..
  qed
qed

lemma build_unified_edge_absent:
  assumes K: "\<forall>r \<in> set rs. ''link_type'' \<notin> fst ` set (rl_kwargs r)"
    and n: "\<forall>r \<in> set rs. rl_layer r \<noteq> L4 \<longrightarrow> link_pair r \<noteq> {x, y}"
  shows "edge_attrs (build_unified clk st rs) x y = None"
proof -
  define st' where "st' = add_links clk (clear_graphs st) rs"
  have c2: "layer2_topology (clear_graphs st) = []" and c3: "layer3_topology (clear_graphs st) = []"
    by (simp_all add: clear_graphs_def nx_clear_def)
  have emp: "nx_get_edge_data [] u v = None" for u v
    by (simp add: nx_get_edge_data_def)
  have wf2: "nx_wf (layer2_topology st')" and wf3: "nx_wf (layer3_topology st')"
    and g2: "nx_good (layer2_topology st')" and g3: "nx_good (layer3_topology st')"
    unfolding st'_def using layers_after_add_links [OF K] by blast+
  have "\<forall>r' \<in> set rs. rl_layer r' = L2 \<longrightarrow> link_pair r' \<noteq> {x, y}"
    using n by simp
  then have "nx_get_edge_data (layer2_topology st') x y = None"
    unfolding st'_def
    using add_links_other [OF adds_selected_layer2 [of clk], where rs = rs and x = x and y = y and st = "clear_graphs st"]
    unfolding c2 emp by blast
  then have 2: "edge_attrs (layer2_topology st') x y = None"
    unfolding edge_attrs_def by simp
  have "\<forall>r' \<in> set rs. rl_layer r' = L3 \<longrightarrow> link_pair r' \<noteq> {x, y}"
    using n by simp
  then have "nx_get_edge_data (layer3_topology st') x y = None"
    unfolding st'_def
    using add_links_other [OF adds_selected_layer3 [of clk], where rs = rs and x = x and y = y and st = "clear_graphs st"]
    unfolding c3 emp by blast
  then have 3: "edge_attrs (layer3_topology st') x y = None"
    unfolding edge_attrs_def by simp
  show ?thesis
    unfolding build_unified_merged [OF K] st'_def [symmetric]
      merged_graph_edge_attrs [OF nx_wf_empty wf2 g2 wf3 g3] 2 3
    by (simp add: edge_attrs_empty)
qed

lemma build_unified_edge_iff:
  assumes D: "distinct (map link_pair rs)"
    and K: "\<forall>r \<in> set rs. ''link_type'' \<notin> fst ` set (rl_kwargs r)"
  shows "edge_attrs (build_unified clk st rs) x y \<noteq> None \<longleftrightarrow>
           (\<exists>r \<in> set rs. rl_layer r \<noteq> L4 \<and> link_pair r = {x, y})"
proof
  assume a: "edge_attrs (build_unified clk st rs) x y \<noteq> None"
  show "\<exists>r \<in> set rs. rl_layer r \<noteq> L4 \<and> link_pair r = {x, y}"
  proof (rule ccontr)
    assume "\<not> (\<exists>r \<in> set rs. rl_layer r \<noteq> L4 \<and> link_pair r = {x, y})"
    then have "\<forall>r \<in> set rs. rl_layer r \<noteq> L4 \<longrightarrow> link_pair r \<noteq> {x, y}"
      by blast
    then have "edge_attrs (build_unified clk st rs) x y = None"
      using K by (intro build_unified_edge_absent)
    then show False using a by simp
  qed
next
  assume "\<exists>r \<in> set rs. rl_layer r \<noteq> L4 \<and> link_pair r = {x, y}"
  then obtain r where r: "r \<in> set rs" "rl_layer r \<noteq> L4" "link_pair r = {x, y}"
    by blast
  obtain t where "edge_attrs (build_unified clk st rs) x y = Some (map_of (rl_data r t))"
    using build_unified_edge_present [OF D K r] by blast
  then show "edge_attrs (build_unified clk st rs) x y \<noteq> None"
    by simp
qed

lemma build_unified_edge_set:
  assumes D: "distinct (map link_pair rs)"
    and K: "\<forall>r \<in> set rs. ''link_type'' \<notin> fst ` set (rl_kwargs r)"
  shows "edge_set (build_unified clk st rs) = link_pair ` {r \<in> set rs. rl_layer r \<noteq> L4}"
proof -
  have 1: "nx_get_edge_data (build_unified clk st rs) x y \<noteq> None \<longleftrightarrow>
      (\<exists>r \<in> set rs. rl_layer r \<noteq> L4 \<and> link_pair r = {x, y})" for x y
    using build_unified_edge_iff [OF D K, of clk st x y] unfolding edge_attrs_def by simp
  have 2: "\<exists>x y. link_pair r = {x, y}" for r
    unfolding link_pair_def by blast
  show ?thesis
    unfolding edge_set_wf [OF build_unified_wf [OF K]] 1
  proof (intro set_eqI iffI)
    fix e assume "e \<in> {{x, y} |x y. \<exists>r\<in>set rs. rl_layer r \<noteq> L4 \<and> link_pair r = {x, y}}"
    then obtain x y r where "e = {x, y}" "r \<in> set rs" "rl_layer r \<noteq> L4" "link_pair r = {x, y}"
      by blast
    then have "e = link_pair r" "r \<in> {r \<in> set rs. rl_layer r \<noteq> L4}"
      by simp_all
    then show "e \<in> link_pair ` {r \<in> set rs. rl_layer r \<noteq> L4}"
      by (rule image_eqI)
  next
    fix e assume "e \<in> link_pair ` {r \<in> set rs. rl_layer r \<noteq> L4}"
    then obtain r where r: "r \<in> set rs" "rl_layer r \<noteq> L4" "e = link_pair r"
      by blast
    obtain x y where xy: "link_pair r = {x, y}"
      using 2 by blast
    have "e = {x, y} \<and> (\<exists>r\<in>set rs. rl_layer r \<noteq> L4 \<and> link_pair r = {x, y})"
      using r xy by blast
    then show "e \<in> {{x, y} |x y. \<exists>r\<in>set rs. rl_layer r \<noteq> L4 \<and> link_pair r = {x, y}}"
      by blast
  qed
qed


subsection \<open>Simple paths\<close>

declare nx_simple_paths_from.simps [simp del] bfs.simps [simp del] reach.simps [simp del]

lemma asp_unfold_below:
  assumes "length visited < cutoff"
  shows "nx_simple_paths_from G targets cutoff visited u =
        concat (map (\<lambda>child.
          if child \<in> set visited then []
          else (if child \<in> set targets then [visited @ [child]] else []) @
               (if list_ex (\<lambda>x. x \<notin> set (visited @ [child])) targets
                then nx_simple_paths_from G targets cutoff (visited @ [child]) child
                else []))
          (map fst (nx_adj G u)))"
  using assms by (subst nx_simple_paths_from.simps) simp

lemma asp_unfold_at:
  assumes "\<not> length visited < cutoff"
  shows "nx_simple_paths_from G targets cutoff visited u =
        map (\<lambda>x. visited @ [x])
             (filter (\<lambda>x. x \<in> set targets \<and> x \<notin> set visited) (remdups (map fst (nx_adj G u))))"
  using assms by (subst nx_simple_paths_from.simps) simp

lemma asp_complete:
  assumes "t \<notin> set visited" and "length visited + length q \<le> cutoff + 1" and "q \<noteq> []"
    and "last q = t" and "distinct (visited @ q)" and "walk G (u # q)"
  shows "visited @ q \<in> set (nx_simple_paths_from G [t] cutoff visited u)"
  using assms
proof (induction q arbitrary: visited u)
  case Nil
  then show ?case by simp
next
  case (Cons child q)
  have child: "child \<in> fst ` set (nx_adj G u)" and w: "walk G (child # q)"
    using Cons.prems(6) by simp_all
  have nv: "child \<notin> set visited"
    using Cons.prems(5) by auto
  show ?case
  proof (cases "length visited < cutoff")
    case True
    have "visited @ child # q \<in> set
          ((if child \<in> set [t] then [visited @ [child]] else []) @
               (if list_ex (\<lambda>x. x \<notin> set (visited @ [child])) [t]
                then nx_simple_paths_from G [t] cutoff (visited @ [child]) child
                else []))"
    proof (cases "q = []")
      case True
      then have "child = t"
        using Cons.prems(4) by simp
      then show ?thesis
        using True by simp
    next
      case False
      then have lt: "last q = t"
        using Cons.prems(4) by simp
      then have "t \<in> set q"
        using False last_in_set by blast
      then have ct: "child \<noteq> t"
        using Cons.prems(5) by auto
      have "(visited @ [child]) @ q \<in> set (nx_simple_paths_from G [t] cutoff (visited @ [child]) child)"
        using Cons.prems(1,2,5) ct False lt w by (intro Cons.IH) auto
      then show ?thesis
        using ct Cons.prems(1) by simp
    qed
    then show ?thesis
      unfolding asp_unfold_below [OF True] using child nv by auto
  next
    case False
    have "length visited + length q \<le> cutoff"
      using Cons.prems(2) by simp
    with False have "length q = 0"
      by linarith
    then have q: "q = []" by simp
    then have "child = t"
      using Cons.prems(4) by simp
    then show ?thesis
      unfolding asp_unfold_at [OF False] using child nv q by auto
  qed
qed

lemma asp_sound:
  assumes "p \<in> set (nx_simple_paths_from G targets cutoff visited u)"
    and "targets = [t]" and "t \<notin> set visited" and "distinct visited"
  shows "\<exists>q. p = visited @ q \<and> q \<noteq> [] \<and> last q = t \<and> distinct (visited @ q) \<and> walk G (u # q)"
  using assms
proof (induction G targets cutoff visited u arbitrary: p rule: nx_simple_paths_from.induct)
  case (1 G targets cutoff visited u)
  show ?case
  proof (cases "length visited < cutoff")
    case True
    from "1.prems"(1) obtain child where child: "child \<in> fst ` set (nx_adj G u)"
      and nv: "child \<notin> set visited"
      and p: "p \<in> set ((if child \<in> set targets then [visited @ [child]] else []) @
               (if list_ex (\<lambda>x. x \<notin> set (visited @ [child])) targets
                then nx_simple_paths_from G targets cutoff (visited @ [child]) child
                else []))"
      unfolding asp_unfold_below [OF True] by (auto split: if_splits)
    from p consider (hit) "child = t" "p = visited @ [child]"
      | (deeper) "child \<noteq> t" "p \<in> set (nx_simple_paths_from G targets cutoff (visited @ [child]) child)"
      using "1.prems"(2,3) by (auto split: if_splits)
    then show ?thesis
    proof cases
      case hit
      then have "p = visited @ [t] \<and> [t] \<noteq> [] \<and> last [t] = t \<and> distinct (visited @ [t]) \<and> walk G (u # [t])"
        using "1.prems"(3,4) child by simp
      then show ?thesis by blast
    next
      case deeper
      have le: "list_ex (\<lambda>x. x \<notin> set (visited @ [child])) targets"
        using deeper(1) "1.prems"(2,3) by simp
      have "child \<in> set (map fst (nx_adj G u))"
        using child by simp
      then have "\<exists>q. p = (visited @ [child]) @ q \<and> q \<noteq> [] \<and> last q = t \<and> distinct ((visited @ [child]) @ q)
          \<and> walk G (child # q)"
        using True nv le deeper "1.prems"(2,3,4)
        by (intro "1.IH") auto
      then obtain q where q: "p = (visited @ [child]) @ q" "q \<noteq> []" "last q = t"
        "distinct ((visited @ [child]) @ q)" "walk G (child # q)"
        by blast
      then have "p = visited @ (child # q) \<and> child # q \<noteq> [] \<and> last (child # q) = t
          \<and> distinct (visited @ (child # q)) \<and> walk G (u # child # q)"
        using child by simp
      then show ?thesis by blast
    qed
  next
    case False
    from "1.prems"(1) have "p = visited @ [t]" and "t \<in> fst ` set (nx_adj G u)"
      unfolding asp_unfold_at [OF False] using "1.prems"(2) by auto
    then have "p = visited @ [t] \<and> [t] \<noteq> [] \<and> last [t] = t \<and> distinct (visited @ [t]) \<and> walk G (u # [t])"
      using "1.prems"(3,4) by simp
    then show ?thesis by blast
  qed
qed

lemma adj_iff: "y \<in> fst ` set (nx_adj G x) \<longleftrightarrow> nx_get_edge_data G x y \<noteq> None"
proof (cases "map_of G x")
  case None
  then show ?thesis by (simp add: nx_adj_def nx_get_edge_data_def)
next
  case (Some e)
  obtain na nbrs where e: "e = (na, nbrs)" by (cases e)
  have "y \<in> fst ` set nbrs \<longleftrightarrow> map_of nbrs y \<noteq> None"
    by (simp add: map_of_eq_None_iff)
  then show ?thesis
    using Some unfolding e by (simp add: nx_adj_def nx_get_edge_data_def)
qed

lemma adj_node:
  assumes "y \<in> fst ` set (nx_adj G x)"
  shows "x \<in> fst ` set G"
proof (cases "map_of G x")
  case None
  then show ?thesis using assms by (simp add: nx_adj_def)
next
  case (Some e)
  then have "(x, e) \<in> set G" by (rule map_of_SomeD)
  then show ?thesis by force
qed

lemma walk_nodes: "walk G p \<Longrightarrow> set (butlast p) \<subseteq> fst ` set G"
proof (induction G p rule: walk.induct)
  case (3 G x y p)
  from "3.prems" have a: "y \<in> fst ` set (nx_adj G x)" and w: "walk G (y # p)"
    by simp_all
  have "x \<in> fst ` set G" using a by (rule adj_node)
  moreover have "set (butlast (y # p)) \<subseteq> fst ` set G" using w by (rule "3.IH")
  ultimately show ?case by simp
qed simp_all

lemma simple_path_length:
  assumes "simple_path G s t p" and "t \<in> set (nx_nodes G)"
  shows "length p \<le> length G"
proof -
  have p: "p \<noteq> []" "last p = t" "distinct p" "walk G p"
    using assms(1) unfolding simple_path_def by simp_all
  have bl: "butlast p @ [last p] = p"
    using p(1) by (rule append_butlast_last_id)
  have "set (butlast p @ [last p]) = set (butlast p) \<union> {last p}"
    by simp
  then have "set p = set (butlast p) \<union> {last p}"
    unfolding bl .
  then have "set p \<subseteq> fst ` set G"
    using walk_nodes [OF p(4)] assms(2) p(2) unfolding nx_nodes_def by auto
  then have "card (set p) \<le> card (fst ` set G)"
    by (intro card_mono) simp_all
  also have "\<dots> \<le> card (set G)"
    by (intro card_image_le) simp
  also have "\<dots> \<le> length G"
    by (rule card_length)
  finally show ?thesis
    using p(3) by (simp add: distinct_card)
qed

lemma set_nx_all_simple_paths:
  assumes s: "s \<in> set (nx_nodes G)" and t: "t \<in> set (nx_nodes G)" and st: "s \<noteq> t"
  shows "\<exists>ps. nx_all_simple_paths G s t = Inr ps \<and> set ps = {p. simple_path G s t p}"
proof -
  have "card {s, t} \<le> card (fst ` set G)"
    using s t unfolding nx_nodes_def by (intro card_mono) auto
  also have "\<dots> \<le> card (set G)"
    by (intro card_image_le) simp
  also have "\<dots> \<le> length G"
    by (rule card_length)
  finally have len: "2 \<le> length G"
    using st by simp
  then have c: "\<not> length G - 1 < 1"
    by simp
  have eq: "nx_all_simple_paths G s t = Inr (nx_simple_paths_from G [t] (length G - 1) [s] s)"
    unfolding nx_all_simple_paths_def Let_def using s t st c by simp
  have "set (nx_simple_paths_from G [t] (length G - 1) [s] s) = {p. simple_path G s t p}"
  proof (intro set_eqI iffI)
    fix p assume "p \<in> set (nx_simple_paths_from G [t] (length G - 1) [s] s)"
    then have "\<exists>q. p = [s] @ q \<and> q \<noteq> [] \<and> last q = t \<and> distinct ([s] @ q) \<and> walk G (s # q)"
      using st by (intro asp_sound) simp_all
    then obtain q where "p = s # q" "q \<noteq> []" "last q = t" "distinct (s # q)" "walk G (s # q)"
      by auto
    then have "simple_path G s t p"
      unfolding simple_path_def by simp
    then show "p \<in> {p. simple_path G s t p}" by simp
  next
    fix p assume "p \<in> {p. simple_path G s t p}"
    then have sp: "simple_path G s t p" by simp
    then have p: "p \<noteq> []" "hd p = s" "last p = t" "distinct p" "walk G p"
      unfolding simple_path_def by simp_all
    then obtain q where q: "p = s # q"
      by (cases p) simp_all
    have qn: "q \<noteq> []"
      using p(3) st unfolding q by auto
    have "length p \<le> length G"
      using sp t by (rule simple_path_length)
    then have l: "length [s] + length q \<le> (length G - 1) + 1"
      unfolding q using len by simp
    have "[s] @ q \<in> set (nx_simple_paths_from G [t] (length G - 1) [s] s)"
      using st l qn p(3,4,5) unfolding q by (intro asp_complete) simp_all
    then show "p \<in> set (nx_simple_paths_from G [t] (length G - 1) [s] s)"
      unfolding q by simp
  qed
  then show ?thesis
    unfolding eq by simp
qed

lemma device_inj: "device i = device j \<longleftrightarrow> i = j"
proof
  assume "device i = device j"
  then have "length (device i) = length (device j)" by simp
  then show "i = j" by (simp add: device_def)
qed simp

lemma get_edge_data_add_edge_keeps:
  assumes "nx_get_edge_data G x y \<noteq> None"
  shows "nx_get_edge_data (nx_add_edge G u v a) x y \<noteq> None"
proof (cases "{x, y} = {u, v}")
  case True
  then show ?thesis by (simp only: get_edge_data_nx_add_edge if_True) simp
next
  case False
  then show ?thesis using assms by (simp only: get_edge_data_nx_add_edge if_False) simp
qed

lemma get_edge_data_add_edges_from_keeps:
  "nx_get_edge_data G x y \<noteq> None \<Longrightarrow> nx_get_edge_data (nx_add_edges_from G es) x y \<noteq> None"
proof (induction es arbitrary: G)
  case Nil
  then show ?case by (simp add: nx_add_edges_from_def)
next
  case (Cons e es)
  obtain u v a where e: "e = (u, v, a)" by (cases e)
  have "nx_get_edge_data (nx_add_edge G u v a) x y \<noteq> None"
    using Cons.prems by (rule get_edge_data_add_edge_keeps)
  then have "nx_get_edge_data (nx_add_edges_from (nx_add_edge G u v a) es) x y \<noteq> None"
    by (rule Cons.IH)
  then show ?case unfolding e nx_add_edges_from_Cons .
qed

lemma get_edge_data_add_edges_from_present:
  assumes "(u, v, a) \<in> set es" and "{x, y} = {u, v}"
  shows "nx_get_edge_data (nx_add_edges_from G es) x y \<noteq> None"
  using assms(1)
proof (induction es arbitrary: G)
  case Nil
  then show ?case by simp
next
  case (Cons e es)
  obtain u' v' a' where e: "e = (u', v', a')" by (cases e)
  show ?case
  proof (cases "e = (u, v, a)")
    case True
    have "nx_get_edge_data (nx_add_edge G u v a) x y \<noteq> None"
      using assms(2) by (simp only: get_edge_data_nx_add_edge if_True) simp
    then have "nx_get_edge_data (nx_add_edges_from (nx_add_edge G u v a) es) x y \<noteq> None"
      by (rule get_edge_data_add_edges_from_keeps)
    then show ?thesis unfolding True nx_add_edges_from_Cons .
  next
    case False
    then have "(u, v, a) \<in> set es" using Cons.prems by simp
    then have "nx_get_edge_data (nx_add_edges_from (nx_add_edge G u' v' a') es) x y \<noteq> None"
      by (rule Cons.IH)
    then show ?thesis unfolding e nx_add_edges_from_Cons .
  qed
qed

lemma full_mesh_edge:
  assumes "i < j" and "j < n"
  shows "(device i, device j, []) \<in>
     set (map (\<lambda>(i, j). (device i, device j, []))
            (filter (\<lambda>(i, j). i < j) (List.product [0..<n] [0..<n])))"
proof -
  have "(i, j) \<in> set (filter (\<lambda>(i, j). i < j) (List.product [0..<n] [0..<n]))"
    using assms by simp
  then have "(\<lambda>(i, j). (device i, device j, [])) (i, j) \<in>
      (\<lambda>(i, j). (device i, device j, [])) ` set (filter (\<lambda>(i, j). i < j) (List.product [0..<n] [0..<n]))"
    by (rule imageI)
  then show ?thesis
    unfolding set_map by simp
qed

lemma full_mesh_adj:
  assumes "i < n" and "j < n" and "i \<noteq> j"
  shows "device j \<in> fst ` set (nx_adj (full_mesh n) (device i))"
proof -
  have "nx_get_edge_data (full_mesh n) (device i) (device j) \<noteq> None"
  proof (cases "i < j")
    case True
    have "{device i, device j} = {device i, device j}" by (rule refl)
    with full_mesh_edge [OF True assms(2)] show ?thesis
      unfolding full_mesh_def by (rule get_edge_data_add_edges_from_present)
  next
    case False
    then have ji: "j < i" using assms(3) by simp
    have "{device i, device j} = {device j, device i}" by (rule insert_commute)
    with full_mesh_edge [OF ji assms(1)] show ?thesis
      unfolding full_mesh_def by (rule get_edge_data_add_edges_from_present)
  qed
  then show ?thesis by (simp only: adj_iff) simp
qed

lemma full_mesh_nodes:
  assumes "i < n" and "2 \<le> n"
  shows "device i \<in> set (nx_nodes (full_mesh n))"
proof -
  obtain j where j: "j < n" "i \<noteq> j"
  proof (cases "i = 0")
    case True
    then show ?thesis using assms(2) that [of 1] by simp
  next
    case False
    then show ?thesis using assms that [of 0] by simp
  qed
  have "device j \<in> fst ` set (nx_adj (full_mesh n) (device i))"
    using assms(1) j by (rule full_mesh_adj)
  then have "device i \<in> fst ` set (full_mesh n)"
    by (rule adj_node)
  then show ?thesis by (simp add: nx_nodes_def)
qed

lemma full_mesh_walk:
  assumes "set p \<subseteq> device ` {..<n}" and "distinct p"
  shows "walk (full_mesh n) p"
  using assms
proof (induction "full_mesh n" p rule: walk.induct)
  case (3 x y p)
  from "3.prems" obtain i j where x: "x = device i" "i < n" and y: "y = device j" "j < n"
    by auto
  have "i \<noteq> j" using "3.prems"(2) x(1) y(1) by auto
  then have "device j \<in> fst ` set (nx_adj (full_mesh n) (device i))"
    using x(2) y(2) by (intro full_mesh_adj)
  moreover have "walk (full_mesh n) (y # p)"
    using "3.prems" by (intro "3.hyps") simp_all
  ultimately show ?case unfolding x(1) y(1) by simp
qed simp_all

lemma full_mesh_simple_path:
  assumes "set p \<subseteq> device ` {..<n}" and "distinct p" and "p \<noteq> []"
  shows "simple_path (full_mesh n) (hd p) (last p) p"
  unfolding simple_path_def using assms full_mesh_walk by simp

lemma full_mesh_paths:
  assumes "2 \<le> n" and "topology st = full_mesh n"
  shows "set (fst (get_redundant_paths st (device 0) (device (n - 1))))
           = {p. simple_path (full_mesh n) (device 0) (device (n - 1)) p}"
proof -
  have "device 0 \<in> set (nx_nodes (full_mesh n))"
    using assms(1) by (intro full_mesh_nodes) simp_all
  moreover have "device (n - 1) \<in> set (nx_nodes (full_mesh n))"
    using assms(1) by (intro full_mesh_nodes) simp_all
  moreover have "device 0 \<noteq> device (n - 1)"
    using assms(1) by (simp add: device_inj)
  ultimately obtain ps where "nx_all_simple_paths (full_mesh n) (device 0) (device (n - 1)) = Inr ps"
    and "set ps = {p. simple_path (full_mesh n) (device 0) (device (n - 1)) p}"
    using set_nx_all_simple_paths by blast
  then show ?thesis
    by (simp add: get_redundant_paths_def assms(2))
qed

lemma full_mesh_detour:
  assumes "0 < i" and "i < n - 1"
  shows "simple_path (full_mesh n) (device 0) (device (n - 1)) [device 0, device i, device (n - 1)]"
proof -
  have "set [device 0, device i, device (n - 1)] \<subseteq> device ` {..<n}"
    using assms by simp
  moreover have "distinct [device 0, device i, device (n - 1)]"
    using assms by (simp add: device_inj)
  ultimately have "simple_path (full_mesh n) (hd [device 0, device i, device (n - 1)])
      (last [device 0, device i, device (n - 1)]) [device 0, device i, device (n - 1)]"
    by (intro full_mesh_simple_path) simp_all
  then show ?thesis by simp
qed

lemma full_mesh_longest:
  assumes "2 \<le> n"
  shows "simple_path (full_mesh n) (device 0) (device (n - 1)) (map device [0..<n])"
proof -
  have ne: "[0..<n] \<noteq> []" using assms by simp
  have "set (map device [0..<n]) \<subseteq> device ` {..<n}"
    by auto
  moreover have "distinct (map device [0..<n])"
    by (simp add: distinct_map inj_on_def device_inj)
  moreover have "map device [0..<n] \<noteq> []"
    using ne by simp
  ultimately have "simple_path (full_mesh n) (hd (map device [0..<n]))
      (last (map device [0..<n])) (map device [0..<n])"
    by (rule full_mesh_simple_path)
  moreover have "hd (map device [0..<n]) = device 0"
    using ne assms by (simp add: hd_map hd_upt)
  moreover have "last (map device [0..<n]) = device (n - 1)"
    using ne assms by (simp add: last_map last_upt)
  ultimately show ?thesis by simp
qed

section \<open>Properties\<close>

subsection \<open>Adding a link\<close>

lemma merge_topologies_time_calls:
  "merge_topologies (st\<lparr>time_calls := n\<rparr>) = (merge_topologies st)\<lparr>time_calls := n\<rparr>"
  by (simp add: merge_topologies_def Let_def log_error_def split: sum.splits prod.splits)

text \<open>
  C10. A link whose layer is neither L2 nor L3 is dropped without an error: the call of
  \<^verbatim>\<open>_add_link\<close> reads the clock and changes nothing else, so the layer graphs and the
  log stay as they were, and the unified graph merged afterwards is the one merged
  without the call.
\<close>

theorem add_link_other_layer_dropped:
  assumes "ly \<noteq> L2" and "ly \<noteq> L3"
  shows "add_link clk st src tgt lt ly si ti kw = st\<lparr>time_calls := Suc (time_calls st)\<rparr>
    \<and> layer2_topology (add_link clk st src tgt lt ly si ti kw) = layer2_topology st
    \<and> layer3_topology (add_link clk st src tgt lt ly si ti kw) = layer3_topology st
    \<and> logged (add_link clk st src tgt lt ly si ti kw) = logged st
    \<and> topology (merge_topologies (add_link clk st src tgt lt ly si ti kw))
        = topology (merge_topologies st)"
  using assms by (simp add: add_link_def time_time_def merge_topologies_time_calls)

theorem add_link_other_layer_dropped_witness:
  "add_link (clock_at 100) manager0 ''A'' ''B'' LOGICAL L4 ''eth0'' ''eth1'' []
     = manager0\<lparr>time_calls := Suc (time_calls manager0)\<rparr>
   \<and> topology (merge_topologies
        (add_link (clock_at 100) manager0 ''A'' ''B'' LOGICAL L4 ''eth0'' ''eth1'' []))
     = topology (merge_topologies manager0)"
proof -
  have "L4 \<noteq> L2" and "L4 \<noteq> L3"
    by simp_all
  from add_link_other_layer_dropped [OF this, of "clock_at 100" manager0 "''A''" "''B''" LOGICAL "''eth0''" "''eth1''" "[]"]
  show ?thesis by blast
qed

subsection \<open>Duplicate links\<close>

text \<open>
  C3, at two L2 records for the pair \<open>A\<close>-\<open>B\<close>, one with the interfaces eth0/eth1 and
  one with eth2/eth3. The unified graph has one edge for the pair, but its attributes
  are those of the record added last: there is no interface set and the pair eth0/eth1
  is gone. The graph is not a multigraph, so \<^verbatim>\<open>get_edge_data\<close> gives
  \<^verbatim>\<open>_merge_duplicate_links\<close> the attribute dictionary of the edge, whose values
  \<^verbatim>\<open>_merge_edge_data\<close> cannot read as edges: it raises \<^verbatim>\<open>TypeError\<close>, which
  \<^verbatim>\<open>_merge_topologies\<close> logs.
\<close>

theorem duplicate_links_last_record_wins:
  "nx_edges (build_unified (clock_at 100) manager0 [link_ab_eth0, link_ab_eth2]) = [(''A'', ''B'')]
   \<and> nx_get_edge_data (build_unified (clock_at 100) manager0 [link_ab_eth0, link_ab_eth2]) ''A'' ''B''
       = Some [(''link_type'', VLinkType PHYSICAL), (''layer'', VLayerType L2),
               (''source_interface'', VStr ''eth2''), (''target_interface'', VStr ''eth3''),
               (''timestamp'', VFloat 100)]
   \<and> logged (merge_topologies (add_links (clock_at 100) (clear_graphs manager0) [link_ab_eth0, link_ab_eth2]))
       = [LogError ''Error merging topologies'' TypeError]"
  by code_simp

text \<open>
  C2 fails on the code, for two reasons. Two records for the same node pair leave the
  attributes of the one added last, so the order of the records shows in the unified
  graph; and every edge carries the clock reading of its insertion, so two builds of
  one record at different times differ in that attribute.
\<close>

theorem merge_depends_on_order_and_clock:
  "\<not> attr_identical
       (build_unified (clock_at 100) manager0 [link_ab_eth0, link_ab_eth2])
       (build_unified (clock_at 100) manager0 [link_ab_eth2, link_ab_eth0])
   \<and> \<not> attr_identical
       (build_unified (clock_at 100) manager0 [link_ab_eth0])
       (build_unified (clock_at 200) manager0 [link_ab_eth0])"
proof -
  have 1: "nx_get_edge_data (build_unified (clock_at 100) manager0 [link_ab_eth0, link_ab_eth2]) ''A'' ''B''
      = Some [(''link_type'', VLinkType PHYSICAL), (''layer'', VLayerType L2),
              (''source_interface'', VStr ''eth2''), (''target_interface'', VStr ''eth3''),
              (''timestamp'', VFloat 100)]"
    by code_simp
  have 2: "nx_get_edge_data (build_unified (clock_at 100) manager0 [link_ab_eth2, link_ab_eth0]) ''A'' ''B''
      = Some [(''link_type'', VLinkType PHYSICAL), (''layer'', VLayerType L2),
              (''source_interface'', VStr ''eth0''), (''target_interface'', VStr ''eth1''),
              (''timestamp'', VFloat 100)]"
    by code_simp
  have 3: "nx_get_edge_data (build_unified (clock_at 100) manager0 [link_ab_eth0]) ''A'' ''B''
      = Some [(''link_type'', VLinkType PHYSICAL), (''layer'', VLayerType L2),
              (''source_interface'', VStr ''eth0''), (''target_interface'', VStr ''eth1''),
              (''timestamp'', VFloat 100)]"
    by code_simp
  have 4: "nx_get_edge_data (build_unified (clock_at 200) manager0 [link_ab_eth0]) ''A'' ''B''
      = Some [(''link_type'', VLinkType PHYSICAL), (''layer'', VLayerType L2),
              (''source_interface'', VStr ''eth0''), (''target_interface'', VStr ''eth1''),
              (''timestamp'', VFloat 200)]"
    by code_simp
  have a: "\<not> attr_identical
       (build_unified (clock_at 100) manager0 [link_ab_eth0, link_ab_eth2])
       (build_unified (clock_at 100) manager0 [link_ab_eth2, link_ab_eth0])"
  proof
    assume "attr_identical
       (build_unified (clock_at 100) manager0 [link_ab_eth0, link_ab_eth2])
       (build_unified (clock_at 100) manager0 [link_ab_eth2, link_ab_eth0])"
    then have "edge_attrs (build_unified (clock_at 100) manager0 [link_ab_eth0, link_ab_eth2]) ''A'' ''B''
        = edge_attrs (build_unified (clock_at 100) manager0 [link_ab_eth2, link_ab_eth0]) ''A'' ''B''"
      unfolding attr_identical_def by blast
    then have "map_of [(''link_type'', VLinkType PHYSICAL), (''layer'', VLayerType L2),
              (''source_interface'', VStr ''eth2''), (''target_interface'', VStr ''eth3''),
              (''timestamp'', VFloat 100)] ''source_interface''
       = map_of [(''link_type'', VLinkType PHYSICAL), (''layer'', VLayerType L2),
              (''source_interface'', VStr ''eth0''), (''target_interface'', VStr ''eth1''),
              (''timestamp'', VFloat 100)] ''source_interface''"
      unfolding edge_attrs_def 1 2 by (simp only: option.map option.inject)
    then show False by simp
  qed
  have b: "\<not> attr_identical
       (build_unified (clock_at 100) manager0 [link_ab_eth0])
       (build_unified (clock_at 200) manager0 [link_ab_eth0])"
  proof
    assume "attr_identical
       (build_unified (clock_at 100) manager0 [link_ab_eth0])
       (build_unified (clock_at 200) manager0 [link_ab_eth0])"
    then have "edge_attrs (build_unified (clock_at 100) manager0 [link_ab_eth0]) ''A'' ''B''
        = edge_attrs (build_unified (clock_at 200) manager0 [link_ab_eth0]) ''A'' ''B''"
      unfolding attr_identical_def by blast
    then have "map_of [(''link_type'', VLinkType PHYSICAL), (''layer'', VLayerType L2),
              (''source_interface'', VStr ''eth0''), (''target_interface'', VStr ''eth1''),
              (''timestamp'', VFloat 100)] ''timestamp''
       = map_of [(''link_type'', VLinkType PHYSICAL), (''layer'', VLayerType L2),
              (''source_interface'', VStr ''eth0''), (''target_interface'', VStr ''eth1''),
              (''timestamp'', VFloat 200)] ''timestamp''"
      unfolding edge_attrs_def 3 4 by (simp only: option.map option.inject)
    then show False by simp
  qed
  show ?thesis using a b by (rule conjI)
qed

text \<open>
  C2 as amended. When no two records target the same unordered node pair, building
  the layer graphs and the unified graph from the records in any two orders, at any
  clock readings and from any manager, gives the same node set, the same edge set and
  on every edge the same attributes but for the timestamp. (Python lets no keyword
  argument of \<^verbatim>\<open>_add_link\<close> be named \<^verbatim>\<open>link_type\<close>: the third hypothesis.)
\<close>

theorem merge_order_independent_for_distinct_pairs:
  assumes P: "mset rs' = mset rs"
    and D: "distinct (map link_pair rs)"
    and K: "\<forall>r \<in> set rs. ''link_type'' \<notin> fst ` set (rl_kwargs r)"
  shows "attr_identical_but ''timestamp'' (build_unified clk st rs) (build_unified clk' st' rs')"
proof -
  have S: "set rs' = set rs"
    using P by (rule mset_eq_setD)
  have "mset (map link_pair rs') = mset (map link_pair rs)"
    using P by simp
  then have "distinct (map link_pair rs') \<longleftrightarrow> distinct (map link_pair rs)"
    by (rule mset_eq_imp_distinct_iff)
  then have D': "distinct (map link_pair rs')"
    using D by blast
  have K': "\<forall>r \<in> set rs'. ''link_type'' \<notin> fst ` set (rl_kwargs r)"
    using K unfolding S .
  have nodes: "set (nx_nodes (build_unified clk st rs)) = set (nx_nodes (build_unified clk' st' rs'))"
    unfolding build_unified_nodes [OF K] build_unified_nodes [OF K'] S ..
  have edges: "edge_set (build_unified clk st rs) = edge_set (build_unified clk' st' rs')"
    unfolding build_unified_edge_set [OF D K] build_unified_edge_set [OF D' K'] S ..
  have attrs: "map_option (\<lambda>m. m |` (- {''timestamp''})) (edge_attrs (build_unified clk st rs) u v)
      = map_option (\<lambda>m. m |` (- {''timestamp''})) (edge_attrs (build_unified clk' st' rs') u v)" for u v
  proof (cases "\<exists>r \<in> set rs. rl_layer r \<noteq> L4 \<and> link_pair r = {u, v}")
    case True
    then obtain r where r: "r \<in> set rs" "rl_layer r \<noteq> L4" "link_pair r = {u, v}"
      by blast
    have r': "r \<in> set rs'"
      using r(1) unfolding S .
    obtain t where 1: "edge_attrs (build_unified clk st rs) u v = Some (map_of (rl_data r t))"
      using build_unified_edge_present [OF D K r] by blast
    obtain t' where 2: "edge_attrs (build_unified clk' st' rs') u v = Some (map_of (rl_data r t'))"
      using build_unified_edge_present [OF D' K' r' r(2,3)] by blast
    show ?thesis
      unfolding 1 2 using rl_data_but_timestamp [of r t t'] by simp
  next
    case False
    then have n: "\<forall>r \<in> set rs. rl_layer r \<noteq> L4 \<longrightarrow> link_pair r \<noteq> {u, v}"
      by blast
    then have n': "\<forall>r \<in> set rs'. rl_layer r \<noteq> L4 \<longrightarrow> link_pair r \<noteq> {u, v}"
      unfolding S .
    show ?thesis
      unfolding build_unified_edge_absent [OF K n] build_unified_edge_absent [OF K' n'] ..
  qed
  show ?thesis
    unfolding attr_identical_but_def using nodes edges attrs by blast
qed

theorem merge_order_independent_for_distinct_pairs_witness:
  "attr_identical_but ''timestamp''
     (build_unified (clock_at 100) manager0 [link_ab_eth0, link_bc_route])
     (build_unified (clock_at 200) manager_ab [link_bc_route, link_ab_eth0])"
proof -
  have P: "mset [link_bc_route, link_ab_eth0] = mset [link_ab_eth0, link_bc_route]"
    by (simp add: add_mset_commute)
  have "{''A'', ''B''} \<noteq> {''B'', ''C''}"
    by (simp add: doubleton_eq_iff)
  then have D: "distinct (map link_pair [link_ab_eth0, link_bc_route])"
    by (simp add: link_pair_def link_ab_eth0_def link_bc_route_def)
  have K: "\<forall>r \<in> set [link_ab_eth0, link_bc_route]. ''link_type'' \<notin> fst ` set (rl_kwargs r)"
    by (simp add: link_ab_eth0_def link_bc_route_def)
  show ?thesis
    using P D K by (rule merge_order_independent_for_distinct_pairs)
qed

subsection \<open>Detecting changes\<close>

text \<open>
  C4, at the graph with the one edge \<open>A\<close>-\<open>B\<close> compared with itself, the clock reading
  5000. Every category of the change record is empty, as the claim says, and the record
  is appended to the history all the same: \<^verbatim>\<open>any(changes.values())\<close> also tests the
  timestamp, which is not zero.
\<close>

theorem self_diff_appends_history:
  "detect_topology_changes (clock_at 5000) graph_ab manager_ab
     = manager_ab
        \<lparr>history := [\<lparr>timestamp = 5000, added_nodes = {}, removed_nodes = {}, added_links = {},
                      removed_links = {}, modified_links = {}\<rparr>],
         logged := [LogInfo ''Topology changes detected''],
         time_calls := 1\<rparr>"
  by code_simp

subsection \<open>Updating the topology\<close>









subsection \<open>Queries\<close>

text \<open>
  C6, at a source that is a node and a target that is not. \<^verbatim>\<open>shortest_path\<close> raises
  \<^verbatim>\<open>NodeNotFound\<close>, which is not the \<^verbatim>\<open>NetworkXNoPath\<close> that \<^verbatim>\<open>get_path\<close>
  handles: the exception leaves the method.
\<close>

theorem get_path_absent_node_raises:
  "get_path manager_ab ''A'' ''Z'' = Inl (NodeNotFound, manager_ab)"
  by code_simp

text \<open>
  C8 fails on the code. \<^verbatim>\<open>get_redundant_paths\<close> hands the graph to
  \<^verbatim>\<open>all_simple_paths\<close> with no cutoff and lists everything it yields. On four
  devices linked each to every other it returns all five simple paths between two of
  them, whatever the configuration holds; and no bound computed from the configuration
  limits the number of paths returned, or their length, on every graph.
\<close>

theorem redundant_paths_not_bounded:
  "(\<forall>c. fst (get_redundant_paths (manager0\<lparr>config := c, topology := full_mesh 4\<rparr>)
             (device 0) (device 3))
         = [[''n'', ''nn'', ''nnn'', ''nnnn''], [''n'', ''nn'', ''nnnn''],
            [''n'', ''nnn'', ''nn'', ''nnnn''], [''n'', ''nnn'', ''nnnn''], [''n'', ''nnnn'']])
   \<and> \<not> (\<exists>bound :: attrs \<Rightarrow> nat. \<forall>st source target.
           length (fst (get_redundant_paths st source target)) \<le> bound (config st))
   \<and> \<not> (\<exists>bound :: attrs \<Rightarrow> nat. \<forall>st source target.
           \<forall>p \<in> set (fst (get_redundant_paths st source target)). length p \<le> bound (config st))"
proof (intro conjI allI notI)
  fix c
  have "nx_all_simple_paths (full_mesh 4) (device 0) (device 3)
      = Inr [[''n'', ''nn'', ''nnn'', ''nnnn''], [''n'', ''nn'', ''nnnn''],
             [''n'', ''nnn'', ''nn'', ''nnnn''], [''n'', ''nnn'', ''nnnn''], [''n'', ''nnnn'']]"
    by code_simp
  then show "fst (get_redundant_paths (manager0\<lparr>config := c, topology := full_mesh 4\<rparr>)
             (device 0) (device 3))
         = [[''n'', ''nn'', ''nnn'', ''nnnn''], [''n'', ''nn'', ''nnnn''],
            [''n'', ''nnn'', ''nn'', ''nnnn''], [''n'', ''nnn'', ''nnnn''], [''n'', ''nnnn'']]"
    by (simp add: get_redundant_paths_def)
next
  assume "\<exists>bound :: attrs \<Rightarrow> nat. \<forall>st source target.
           length (fst (get_redundant_paths st source target)) \<le> bound (config st)"
  then obtain bound :: "attrs \<Rightarrow> nat" where b: "\<And>st source target.
           length (fst (get_redundant_paths st source target)) \<le> bound (config st)"
    by blast
  define n where "n = bound [] + 3"
  define st where "st = manager0\<lparr>topology := full_mesh n\<rparr>"
  define ps where "ps = fst (get_redundant_paths st (device 0) (device (n - 1)))"
  have n2: "2 \<le> n" by (simp add: n_def)
  have t: "topology st = full_mesh n" by (simp add: st_def)
  have c: "config st = []" by (simp add: st_def manager0_def)
  have ps: "set ps = {p. simple_path (full_mesh n) (device 0) (device (n - 1)) p}"
    unfolding ps_def using n2 t by (rule full_mesh_paths)
  have "(\<lambda>i. [device 0, device i, device (n - 1)]) ` {1..<n - 1} \<subseteq> set ps"
    unfolding ps using full_mesh_detour by auto
  then have "card ((\<lambda>i. [device 0, device i, device (n - 1)]) ` {1..<n - 1}) \<le> card (set ps)"
    by (intro card_mono) simp_all
  moreover have "inj_on (\<lambda>i. [device 0, device i, device (n - 1)]) {1..<n - 1}"
    by (simp add: inj_on_def device_inj)
  then have "card ((\<lambda>i. [device 0, device i, device (n - 1)]) ` {1..<n - 1}) = card {1..<n - 1}"
    by (rule card_image)
  moreover have "card (set ps) \<le> length ps"
    by (rule card_length)
  moreover have "length ps \<le> bound []"
    using b [of st "device 0" "device (n - 1)"] unfolding ps_def c .
  ultimately show False
    by (simp add: n_def)
next
  assume "\<exists>bound :: attrs \<Rightarrow> nat. \<forall>st source target.
           \<forall>p \<in> set (fst (get_redundant_paths st source target)). length p \<le> bound (config st)"
  then obtain bound :: "attrs \<Rightarrow> nat" where b: "\<And>st source target p.
           p \<in> set (fst (get_redundant_paths st source target)) \<Longrightarrow> length p \<le> bound (config st)"
    by blast
  define n where "n = bound [] + 2"
  define st where "st = manager0\<lparr>topology := full_mesh n\<rparr>"
  have n2: "2 \<le> n" by (simp add: n_def)
  have t: "topology st = full_mesh n" by (simp add: st_def)
  have c: "config st = []" by (simp add: st_def manager0_def)
  have "map device [0..<n] \<in> {p. simple_path (full_mesh n) (device 0) (device (n - 1)) p}"
    using full_mesh_longest [OF n2] by simp
  then have "map device [0..<n] \<in> set (fst (get_redundant_paths st (device 0) (device (n - 1))))"
    unfolding full_mesh_paths [OF n2 t] .
  then have "length (map device [0..<n]) \<le> bound (config st)"
    by (rule b)
  then show False
    unfolding c by (simp add: n_def)
qed

text \<open>
  C8 as amended. For two distinct nodes of the published graph, the paths that
  \<^verbatim>\<open>get_redundant_paths\<close> returns are exactly the simple paths of the graph from the
  source to the target: none is left out and the list is not truncated. The manager
  is left as it was, and the configuration has no part in the result.
\<close>

theorem redundant_paths_are_all_simple_paths:
  assumes "source \<in> set (nx_nodes (topology st))" and "target \<in> set (nx_nodes (topology st))"
    and "source \<noteq> target"
  shows "set (fst (get_redundant_paths st source target))
           = {p. simple_path (topology st) source target p}
       \<and> snd (get_redundant_paths st source target) = st
       \<and> fst (get_redundant_paths (st\<lparr>config := c\<rparr>) source target)
           = fst (get_redundant_paths st source target)"
proof -
  obtain ps where "nx_all_simple_paths (topology st) source target = Inr ps"
    and "set ps = {p. simple_path (topology st) source target p}"
    using set_nx_all_simple_paths [OF assms] by blast
  then show ?thesis
    by (simp add: get_redundant_paths_def)
qed

theorem redundant_paths_are_all_simple_paths_witness:
  "device 0 \<in> set (nx_nodes (topology (manager0\<lparr>topology := full_mesh 3\<rparr>)))
   \<and> device 2 \<in> set (nx_nodes (topology (manager0\<lparr>topology := full_mesh 3\<rparr>)))
   \<and> device 0 \<noteq> device 2
   \<and> {p. simple_path (topology (manager0\<lparr>topology := full_mesh 3\<rparr>)) (device 0) (device 2) p}
       = set (fst (get_redundant_paths (manager0\<lparr>topology := full_mesh 3\<rparr>) (device 0) (device 2)))
   \<and> fst (get_redundant_paths (manager0\<lparr>topology := full_mesh 3\<rparr>) (device 0) (device 2))
       = [[''n'', ''nn'', ''nnn''], [''n'', ''nnn'']]"
proof -
  have h1: "device 0 \<in> set (nx_nodes (topology (manager0\<lparr>topology := full_mesh 3\<rparr>)))"
    by code_simp
  have h2: "device 2 \<in> set (nx_nodes (topology (manager0\<lparr>topology := full_mesh 3\<rparr>)))"
    by code_simp
  have h3: "device 0 \<noteq> device 2"
    by (simp add: device_inj)
  have ev: "fst (get_redundant_paths (manager0\<lparr>topology := full_mesh 3\<rparr>) (device 0) (device 2))
       = [[''n'', ''nn'', ''nnn''], [''n'', ''nnn'']]"
    by code_simp
  from redundant_paths_are_all_simple_paths [OF h1 h2 h3]
  have "set (fst (get_redundant_paths (manager0\<lparr>topology := full_mesh 3\<rparr>) (device 0) (device 2)))
      = {p. simple_path (topology (manager0\<lparr>topology := full_mesh 3\<rparr>)) (device 0) (device 2) p}"
    by (rule conjunct1)
  then have "{p. simple_path (topology (manager0\<lparr>topology := full_mesh 3\<rparr>)) (device 0) (device 2) p}
      = set (fst (get_redundant_paths (manager0\<lparr>topology := full_mesh 3\<rparr>) (device 0) (device 2)))"
    by (rule sym)
  with h1 h2 h3 ev show ?thesis
    by (intro conjI)
qed

end
